theory Spec2Isabelle
  imports
    Complex_Main
    "HOL-Library.AList"
    "HOL-Library.Multiset"
    "HOL-Library.List_Lexorder"
    "HOL-Library.Char_ord"
begin

section \<open>JavaScript primitives used by web/app.js\<close>

text \<open>
  JavaScript numbers are idealised as real numbers: the arithmetic of the engine is
  followed exactly, rounding of doubles, \<open>NaN\<close> and the infinities are left out. Where the
  source holds \<open>Infinity\<close> or \<open>null\<close> in a numeric variable, the model holds \<open>None\<close>.
  The bucketing loop of the aggregator is the exception: there the rounding of a quotient
  decides the bucket of a point, so the engine's addition and division are parameters
  of the model (\<open>float_ops\<close>).

  An exception of the engine is a value of \<open>js_error\<close>; a function that can raise
  returns \<open>js_error + 'a\<close>, and a loop whose body can raise is \<open>forEach\<close>.

  \<open>Array.prototype.sort\<close> is stable; with a consistent comparator its result is the one
  of a stable insertion sort, which is what \<open>js_sort\<close> computes. The comparator returns
  a number, as in the source: at most zero means "the first argument stays in front".
\<close>

datatype js_error = TypeError

fun forEach :: "('a \<Rightarrow> 's \<Rightarrow> js_error + 's) \<Rightarrow> 'a list \<Rightarrow> 's \<Rightarrow> js_error + 's" where
  "forEach body [] s = Inr s"
| "forEach body (x # xs) s =
     (case body x s of Inl e \<Rightarrow> Inl e | Inr s' \<Rightarrow> forEach body xs s')"

fun insert_by :: "('a \<Rightarrow> 'a \<Rightarrow> real) \<Rightarrow> 'a \<Rightarrow> 'a list \<Rightarrow> 'a list" where
  "insert_by cmp x [] = [x]"
| "insert_by cmp x (y # ys) =
     (if cmp x y \<le> 0 then x # y # ys else y # insert_by cmp x ys)"

definition js_sort :: "('a \<Rightarrow> 'a \<Rightarrow> real) \<Rightarrow> 'a list \<Rightarrow> 'a list" where
  "js_sort cmp xs = foldr (insert_by cmp) xs []"

text \<open>
  \<open>xs[i]\<close> for an integral index: outside the array the read yields \<open>undefined\<close>,
  which is \<open>None\<close> here.
\<close>

definition js_at :: "'a list \<Rightarrow> int \<Rightarrow> 'a option" where
  "js_at xs i = (if 0 \<le> i \<and> i < int (length xs) then Some (xs ! nat i) else None)"

text \<open>
  \<open>xs[r]\<close> where \<open>r\<close> is what another array read returned: \<open>undefined\<close> and numbers
  that are not the index of an element read \<open>undefined\<close>.
\<close>

definition js_index :: "'a list \<Rightarrow> real option \<Rightarrow> 'a option" where
  "js_index xs r =
     (case r of
        None \<Rightarrow> None
      | Some x \<Rightarrow> if real_of_int \<lfloor>x\<rfloor> = x then js_at xs \<lfloor>x\<rfloor> else None)"

section \<open>Percentile estimator\<close>

text \<open>
  \<open>percentile(values, p)\<close>. The result is \<open>None\<close> where the source reads outside
  \<open>sorted\<close> (a rank below 0 or above \<open>n - 1\<close>) and so returns \<open>undefined\<close> or \<open>NaN\<close>.
\<close>

definition percentile :: "real list \<Rightarrow> real \<Rightarrow> real option" where
  "percentile values p =
     (if values = [] then Some 0
      else
        let sorted = js_sort (\<lambda>a b. a - b) values in
        if length sorted = 1 then js_at sorted 0
        else
          let pos = (p / 100) * (real (length sorted) - 1);
              lower = \<lfloor>pos\<rfloor>;
              upper = \<lceil>pos\<rceil>
          in
            if lower = upper then js_at sorted lower
            else
              let weight = pos - real_of_int lower in
              (case (js_at sorted lower, js_at sorted upper) of
                 (Some a, Some b) \<Rightarrow> Some (a * (1 - weight) + b * weight)
               | _ \<Rightarrow> None))"


definition rank_pos :: "real list \<Rightarrow> real \<Rightarrow> real" where
  "rank_pos vs p = (p / 100) * (real (length vs) - 1)"

section \<open>Payload decoder, block grouper and category aggregator\<close>

text \<open>
  The wire format of one experiment, as the JSON can hold it. A field that may be
  missing is an \<open>option\<close>. An element of \<open>blocks\<close> is a block entry or \<open>null\<close> (\<open>None\<close>).
  A block entry is modelled by the three values the source reads from it (\<open>block_fields\<close>
  only permutes their positions in the tuple); its records are missing, an array, or a
  value that cannot be iterated (a number, \<open>true\<close>, an object). An element of the records
  array is a record or \<open>null\<close> (\<open>None\<close>). A record is an array whose elements are numbers
  or \<open>null\<close> (\<open>None\<close>); the position of a field in it is resolved through
  \<open>record_fields\<close>, as in the source; a record that is not an array (a number, an
  object) reads \<open>undefined\<close> in every field, as the empty record does. A size pair may
  hold \<open>null\<close>, and a \<open>null\<close> pair is replaced by \<open>[null, null]\<close> in the source, which
  is the pair that stands for it here. Block ids are strings. Strings in the place of
  numbers are outside the model.

  The block index (\<open>blockMap\<close> and the \<open>blocks\<close> field of the result), which serves the
  drill-down view, is outside the properties verified here and is not modelled.
\<close>

type_synonym block_id = string

type_synonym raw_record = "real option list"

datatype records_field = NoRecords | NotIterable | Records "raw_record option list"

record block_entry =
  be_block_id :: block_id
  be_size_map :: "real option list list option"
  be_records :: records_field

record payload_maps =
  pm_stage :: "string list option"
  pm_type :: "string list option"
  pm_called_from :: "string list option"

record payload =
  p_experiment_name :: "string option"
  p_ts0 :: "string option"
  p_record_fields :: "string list option"
  p_size_fields :: "string list option"
  p_maps :: "payload_maps option"
  p_blocks :: "block_entry option list option"

text \<open>\<open>x || []\<close> for an array that may be missing.\<close>

definition or_empty :: "'a list option \<Rightarrow> 'a list" where
  "or_empty x = (case x of Some xs \<Rightarrow> xs | None \<Rightarrow> [])"

text \<open>\<open>indexMap(fields, fallback)\<close>: the position of each field name; a later duplicate wins.\<close>

definition indexMap :: "string list \<Rightarrow> string list \<Rightarrow> (string \<rightharpoonup> nat)" where
  "indexMap fieldNames fallback =
     (let list = (if fieldNames \<noteq> [] then fieldNames else fallback)
      in fold (\<lambda>i m. m(list ! i \<mapsto> i)) [0..<length list] Map.empty)"

text \<open>
  \<open>arr[idx.name]\<close>: \<open>undefined\<close> (\<open>None\<close>) when the name has no position or the array is
  too short; otherwise the element, which in a record or a size pair is a number or
  \<open>null\<close>.
\<close>

definition field :: "(string \<rightharpoonup> nat) \<Rightarrow> 'a list \<Rightarrow> string \<Rightarrow> 'a option" where
  "field idx arr name = (case idx name of None \<Rightarrow> None | Some i \<Rightarrow> js_at arr (int i))"

text \<open>\<open>s || "None"\<close> for a string that may be \<open>undefined\<close>: the empty string is falsy too.\<close>

text \<open>A number or \<open>null\<close> in arithmetic: \<open>null\<close> counts as 0.\<close>

definition to_number :: "real option \<Rightarrow> real" where
  "to_number x = (case x of None \<Rightarrow> 0 | Some v \<Rightarrow> v)"

text \<open>
  \<open>xs[rec[idx.name]]\<close>: the element of a dictionary array that a record field points to;
  a field that reads \<open>undefined\<close> or \<open>null\<close> points to nothing.
\<close>

definition lookup_by :: "'a list \<Rightarrow> (string \<rightharpoonup> nat) \<Rightarrow> raw_record \<Rightarrow> string \<Rightarrow> 'a option" where
  "lookup_by xs idx rec name = js_index xs (Option.bind (field idx rec name) (\<lambda>x. x))"

definition or_None :: "string option \<Rightarrow> string" where
  "or_None s = (case s of None \<Rightarrow> ''None'' | Some x \<Rightarrow> if x = [] then ''None'' else x)"

record dec_rec =
  start_sec :: real
  end_sec :: real
  duration_sec :: real
  stage :: "string option"
  original_size :: "real option"
  compressed_size :: "real option"

text \<open>
  \<open>grouped\<close> and \<open>group.blocks\<close> are \<open>Map\<close>s: they keep insertion order, and \<open>set\<close> on a
  key that is present replaces the value in place. An association list with
  \<open>AList.update\<close> does the same.
\<close>

record group =
  g_type :: "string option"
  g_called_from :: "string option"
  g_blocks :: "(block_id \<times> dec_rec list) list"

record decode_state =
  grouped :: "(string \<times> group) list"
  earliestSec :: "real option"

record decode_env =
  env_ts0 :: real
  recIdx :: "string \<rightharpoonup> nat"
  sizeIdx :: "string \<rightharpoonup> nat"
  stageMap :: "string list"
  typeMap :: "string list"
  calledFromMap :: "string list"

text \<open>\<open>if (x < earliestSec) earliestSec = x\<close>, where \<open>None\<close> is the initial \<open>Infinity\<close>.\<close>

definition lower_to :: "real \<Rightarrow> real option \<Rightarrow> real option" where
  "lower_to x e = (case e of None \<Rightarrow> Some x | Some y \<Rightarrow> if x < y then Some x else Some y)"

text \<open>The category key of a record, \<open>`${type || "None"}__${calledFrom || "None"}`\<close>.\<close>

definition recordKey :: "decode_env \<Rightarrow> raw_record \<Rightarrow> string" where
  "recordKey env rec =
     or_None (lookup_by (typeMap env) (recIdx env) rec ''type_idx'') @ ''__'' @
     or_None (lookup_by (calledFromMap env) (recIdx env) rec ''called_from_idx'')"

text \<open>
  The body of the loop over the records of one block entry, for a record that is an
  array. Only a field that reads \<open>undefined\<close> makes the record skipped; a \<open>null\<close>
  start offset or duration is decoded as 0.
\<close>

definition decodeRecord ::
  "decode_env \<Rightarrow> block_id \<Rightarrow> real option list list \<Rightarrow> raw_record \<Rightarrow> decode_state \<Rightarrow> decode_state"
where
  "decodeRecord env blockId sizeMap rec st =
     (case (field (recIdx env) rec ''start_us'', field (recIdx env) rec ''duration_us'') of
        (Some startField, Some durationField) \<Rightarrow>
          let startUs = to_number startField;
              durationUs = to_number durationField;
              startMs = env_ts0 env + startUs / 1000;
              endMs = startMs + durationUs / 1000;
              startSec = startMs / 1000;
              endSec = endMs / 1000;
              durationSec = durationUs / 1000000;
              earliest = lower_to endSec (lower_to startSec (earliestSec st));
              stg = lookup_by (stageMap env) (recIdx env) rec ''stage_idx'';
              type = lookup_by (typeMap env) (recIdx env) rec ''type_idx'';
              calledFrom = lookup_by (calledFromMap env) (recIdx env) rec ''called_from_idx'';
              sizePair = (case lookup_by sizeMap (recIdx env) rec ''size_idx'' of
                            Some pair \<Rightarrow> pair | None \<Rightarrow> [None, None]);
              originalSize = Option.bind (field (sizeIdx env) sizePair ''original_size'') (\<lambda>x. x);
              compressedSize = Option.bind (field (sizeIdx env) sizePair ''compressed_size'') (\<lambda>x. x);
              key = recordKey env rec;
              grp = (case map_of (grouped st) key of
                       Some g \<Rightarrow> g
                     | None \<Rightarrow> \<lparr>g_type = type, g_called_from = calledFrom, g_blocks = []\<rparr>);
              blockRecs = (case map_of (g_blocks grp) blockId of Some rs \<Rightarrow> rs | None \<Rightarrow> []);
              r = \<lparr>start_sec = startSec, end_sec = endSec, duration_sec = durationSec,
                   stage = stg, original_size = originalSize, compressed_size = compressedSize\<rparr>
          in \<lparr>grouped =
                 AList.update key
                   (grp\<lparr>g_blocks := AList.update blockId (blockRecs @ [r]) (g_blocks grp)\<rparr>)
                   (grouped st),
              earliestSec = earliest\<rparr>
      | _ \<Rightarrow> st)"

text \<open>
  One turn of the loop over the records: reading a field of a \<open>null\<close> record raises
  \<open>TypeError\<close>.
\<close>

definition decodeEntry ::
  "decode_env \<Rightarrow> block_id \<Rightarrow> real option list list \<Rightarrow> raw_record option \<Rightarrow> decode_state
     \<Rightarrow> js_error + decode_state"
where
  "decodeEntry env blockId sizeMap rec st =
     (case rec of
        None \<Rightarrow> Inl TypeError
      | Some cells \<Rightarrow> Inr (decodeRecord env blockId sizeMap cells st))"

text \<open>
  The body of the loop over \<open>payload.blocks\<close>: reading a field of a \<open>null\<close> block entry
  raises \<open>TypeError\<close>, and so does \<open>for ... of\<close> over records that cannot be iterated.
\<close>

definition decodeBlock ::
  "decode_env \<Rightarrow> block_entry option \<Rightarrow> decode_state \<Rightarrow> js_error + decode_state"
where
  "decodeBlock env blockEntry st =
     (case blockEntry of
        None \<Rightarrow> Inl TypeError
      | Some entry \<Rightarrow>
          let blockId = be_block_id entry;
              sizeMap = or_empty (be_size_map entry)
          in (case be_records entry of
                NoRecords \<Rightarrow> Inr st
              | NotIterable \<Rightarrow> Inl TypeError
              | Records records \<Rightarrow> forEach (decodeEntry env blockId sizeMap) records st))"

text \<open>A point is the array \<open>[t, v, blockId]\<close>; the third slot is absent in bucketed output.\<close>

type_synonym point = "real \<times> real \<times> block_id option"

definition pt_t :: "point \<Rightarrow> real" where "pt_t p = fst p"
definition pt_v :: "point \<Rightarrow> real" where "pt_v p = fst (snd p)"
definition pt_block :: "point \<Rightarrow> block_id option" where "pt_block p = snd (snd p)"

definition shiftPoints :: "real \<Rightarrow> point list \<Rightarrow> point list" where
  "shiftPoints earliest points =
     js_sort (\<lambda>a b. pt_t a - pt_t b)
       (map (\<lambda>p. (pt_t p - earliest, pt_v p, pt_block p)) points)"

text \<open>The arrays a category fills while it walks over its blocks.\<close>

record acc =
  blockSizePointsDt :: "point list"
  compressionPercentPointsDt :: "point list"
  broadcastTimeAvgPointsDt :: "point list"
  broadcastTimeFullPointsDt :: "point list"
  broadcastTime66pPointsDt :: "point list"
  compressionTimePointsDt :: "point list"
  decompressionTimePointsDt :: "point list"
  blockSizeById :: "(block_id \<times> real) list"

definition empty_acc :: acc where
  "empty_acc = \<lparr>blockSizePointsDt = [], compressionPercentPointsDt = [],
     broadcastTimeAvgPointsDt = [], broadcastTimeFullPointsDt = [],
     broadcastTime66pPointsDt = [], compressionTimePointsDt = [],
     decompressionTimePointsDt = [], blockSizeById = []\<rparr>"

text \<open>The first inner loop: one duration point per compress and per decompress record.\<close>

definition pushTimePoint :: "block_id \<Rightarrow> dec_rec \<Rightarrow> acc \<Rightarrow> acc" where
  "pushTimePoint blockId rec a =
     (if stage rec = Some ''compress'' then
        a\<lparr>compressionTimePointsDt :=
            compressionTimePointsDt a @ [(end_sec rec, duration_sec rec, Some blockId)]\<rparr>
      else if stage rec = Some ''decompress'' then
        a\<lparr>decompressionTimePointsDt :=
            decompressionTimePointsDt a @ [(end_sec rec, duration_sec rec, Some blockId)]\<rparr>
      else a)"

text \<open>A \<open>Set\<close> keeps the first insertion of a value; \<open>values().next().value\<close> is its head.\<close>

definition set_add :: "'a \<Rightarrow> 'a list \<Rightarrow> 'a list" where
  "set_add x s = (if x \<in> set s then s else s @ [x])"

definition positiveSizes :: "(dec_rec \<Rightarrow> real option) \<Rightarrow> dec_rec list \<Rightarrow> real list" where
  "positiveSizes sel recs =
     fold (\<lambda>rec s. case sel rec of
                      Some x \<Rightarrow> if x > 0 then set_add x s else s
                    | None \<Rightarrow> s) recs []"

text \<open>
  The body of the loop over the blocks of a category. \<open>Math.min(...xs)\<close> and
  \<open>Math.max(...xs)\<close> are only reached with non-empty arguments; they are modelled for
  arrays within the engine's limit on the number of arguments of a call (beyond it the
  engine raises \<open>RangeError\<close>; the limit is not part of the language and has no
  counterpart here). \<open>percentile\<close> at 66 always reads inside its array, so its \<open>None\<close>
  branch is never taken here. The test \<open>tsBlock === null\<close> after the size sets is dead
  code and has no counterpart. \<open>blockSizeById\<close> is a plain object: the assignment of a
  number under the id "__proto__" creates no property.
\<close>

definition processBlock :: "acc \<Rightarrow> block_id \<times> dec_rec list \<Rightarrow> acc" where
  "processBlock a0 blk =
     (let blockId = fst blk;
          recs = js_sort (\<lambda>a b. start_sec a - start_sec b) (snd blk);
          a1 = fold (pushTimePoint blockId) recs a0;
          compressTs = map start_sec (filter (\<lambda>r. stage r = Some ''compress'') recs);
          decompressTs = map end_sec (filter (\<lambda>r. stage r = Some ''decompress'') recs)
      in case (compressTs, decompressTs) of
           (c # cs, d # ds) \<Rightarrow>
             let tsBlock = fold min cs c;
                 earliestCompress = tsBlock;
                 latestDecompress = fold max ds d;
                 a2 = a1\<lparr>broadcastTimeFullPointsDt := broadcastTimeFullPointsDt a1 @
                         [(tsBlock, latestDecompress - earliestCompress, Some blockId)]\<rparr>;
                 avgDecomp = foldl (+) 0 decompressTs / real (length decompressTs);
                 a3 = a2\<lparr>broadcastTimeAvgPointsDt := broadcastTimeAvgPointsDt a2 @
                         [(tsBlock, avgDecomp - earliestCompress, Some blockId)]\<rparr>;
                 decompSecs = map (\<lambda>t. t - earliestCompress) decompressTs;
                 a4 = a3\<lparr>broadcastTime66pPointsDt := broadcastTime66pPointsDt a3 @
                         (case percentile decompSecs 66 of
                            Some q \<Rightarrow> [(tsBlock, q, Some blockId)]
                          | None \<Rightarrow> [])\<rparr>;
                 originalSizes = positiveSizes original_size recs;
                 compressedSizes = positiveSizes compressed_size recs
             in (case (originalSizes, compressedSizes) of
                   (originalSize # _, compressedSize # _) \<Rightarrow>
                     a4\<lparr>blockSizePointsDt := blockSizePointsDt a4 @
                           [(tsBlock, originalSize, Some blockId)],
                        blockSizeById :=
                          (if blockId = ''__proto__'' then blockSizeById a4
                           else AList.update blockId originalSize (blockSizeById a4)),
                        compressionPercentPointsDt := compressionPercentPointsDt a4 @
                           [(tsBlock, (originalSize - compressedSize) / originalSize,
                             Some blockId)]\<rparr>
                 | _ \<Rightarrow> a4)
         | _ \<Rightarrow> a1)"

record category_stats =
  cs_type :: "string option"
  cs_called_from :: "string option"
  num_blocks :: nat
  block_size_points :: "point list"
  compression_percent_points :: "point list"
  broadcast_time_avg_points :: "point list"
  broadcast_time_full_points :: "point list"
  broadcast_time_66p_points :: "point list"
  compression_time_points :: "point list"
  decompression_time_points :: "point list"
  block_size_by_id :: "(block_id \<times> real) list"

text \<open>The body of the loop over \<open>grouped.entries()\<close>: the statistics of one category.\<close>

definition categoryStats :: "real \<Rightarrow> group \<Rightarrow> category_stats" where
  "categoryStats earliest grp =
     (let byBlock = g_blocks grp;
          numBlocks = length byBlock;
          a = foldl processBlock empty_acc byBlock
      in \<lparr>cs_type = g_type grp,
          cs_called_from = g_called_from grp,
          num_blocks = numBlocks,
          block_size_points = shiftPoints earliest (blockSizePointsDt a),
          compression_percent_points = shiftPoints earliest (compressionPercentPointsDt a),
          broadcast_time_avg_points = shiftPoints earliest (broadcastTimeAvgPointsDt a),
          broadcast_time_full_points = shiftPoints earliest (broadcastTimeFullPointsDt a),
          broadcast_time_66p_points = shiftPoints earliest (broadcastTime66pPointsDt a),
          compression_time_points = shiftPoints earliest (compressionTimePointsDt a),
          decompression_time_points = shiftPoints earliest (decompressionTimePointsDt a),
          block_size_by_id = blockSizeById a\<rparr>)"

record stats =
  experiment_name :: string
  earliest_ts_global :: "string option"
  type_called_from_stats :: "(string \<times> category_stats) list"

text \<open>\<open>payload.experiment_name || fallbackName || ""\<close>.\<close>

definition resultName :: "payload \<Rightarrow> string option \<Rightarrow> string" where
  "resultName payload fallbackName =
     (case p_experiment_name payload of
        Some n \<Rightarrow> if n \<noteq> [] then n
                  else (case fallbackName of Some f \<Rightarrow> f | None \<Rightarrow> [])
      | None \<Rightarrow> (case fallbackName of Some f \<Rightarrow> f | None \<Rightarrow> []))"

definition emptyStats :: "payload \<Rightarrow> string option \<Rightarrow> stats" where
  "emptyStats payload fallbackName =
     \<lparr>experiment_name = resultName payload fallbackName,
      earliest_ts_global = None,
      type_called_from_stats = []\<rparr>"

definition defaultRecordFields :: "string list" where
  "defaultRecordFields = [''node_idx'', ''start_us'', ''duration_us'', ''stage_idx'',
     ''type_idx'', ''called_from_idx'', ''compression_idx'', ''size_idx'']"

definition defaultSizeFields :: "string list" where
  "defaultSizeFields = [''original_size'', ''compressed_size'']"

text \<open>
  \<open>recIdx\<close> and \<open>sizeIdx\<close>. An empty \<open>record_fields\<close> array is truthy and is not
  replaced by the default order.
\<close>

definition recordIndex :: "payload \<Rightarrow> (string \<rightharpoonup> nat)" where
  "recordIndex payload =
     (let recordFields = (case p_record_fields payload of Some fs \<Rightarrow> fs
                          | None \<Rightarrow> defaultRecordFields)
      in indexMap recordFields recordFields)"

definition sizeIndex :: "payload \<Rightarrow> (string \<rightharpoonup> nat)" where
  "sizeIndex payload =
     (let sizeFields = (case p_size_fields payload of Some fs \<Rightarrow> fs
                        | None \<Rightarrow> defaultSizeFields)
      in indexMap sizeFields sizeFields)"

definition makeEnv :: "payload \<Rightarrow> real \<Rightarrow> decode_env" where
  "makeEnv payload ts =
     (let maps = p_maps payload
      in \<lparr>env_ts0 = ts,
          recIdx = recordIndex payload,
          sizeIdx = sizeIndex payload,
          stageMap = or_empty (Option.bind maps pm_stage),
          typeMap = or_empty (Option.bind maps pm_type),
          calledFromMap = or_empty (Option.bind maps pm_called_from)\<rparr>)"

text \<open>
  \<open>computeStatsFromCompressed(payload, fallbackName)\<close>. \<open>Date.parse\<close> and the local
  ISO rendering of \<open>formatLocalIso\<close> belong to the host; they are the parameters
  \<open>parse\<close> (\<open>None\<close> for \<open>NaN\<close>) and \<open>fmt\<close>. A missing or empty \<open>ts0\<close> is not parsed.
  The result is \<open>Inl\<close> when the decoding loop raises, and \<open>Inr\<close> of the returned object
  otherwise.
\<close>

definition computeStatsFromCompressed ::
  "(string \<Rightarrow> real option) \<Rightarrow> (real \<Rightarrow> string) \<Rightarrow> payload \<Rightarrow> string option
     \<Rightarrow> js_error + stats"
where
  "computeStatsFromCompressed parse fmt payload fallbackName =
     (let ts0 = (case p_ts0 payload of
                   Some s \<Rightarrow> if s \<noteq> [] then parse s else None
                 | None \<Rightarrow> None)
      in case (p_blocks payload, ts0) of
           (Some blocks, Some ts) \<Rightarrow>
             let env = makeEnv payload ts
             in (case forEach (decodeBlock env) blocks \<lparr>grouped = [], earliestSec = None\<rparr> of
                   Inl e \<Rightarrow> Inl e
                 | Inr st \<Rightarrow>
                     (case earliestSec st of
                        None \<Rightarrow> Inr (emptyStats payload fallbackName)
                      | Some earliest \<Rightarrow>
                          Inr \<lparr>experiment_name = resultName payload fallbackName,
                               earliest_ts_global = Some (fmt (earliest * 1000)),
                               type_called_from_stats =
                                 map (\<lambda>(key, grp). (key, categoryStats earliest grp))
                                   (grouped st)\<rparr>))
         | _ \<Rightarrow> Inr (emptyStats payload fallbackName))"

section \<open>Cross-experiment union builder\<close>


record union_meta =
  um_type :: "string option"
  um_called_from :: "string option"
  um_label :: string

record series =
  s_name :: string
  base_ts :: "string option"
  points :: "point list"

record entry =
  label :: string
  block_size_by_id_series :: "(block_id \<times> real) list list"
  block_size_series :: "series list"
  compression_percent_series :: "series list"
  broadcast_time_avg_series :: "series list"
  broadcast_time_full_series :: "series list"
  broadcast_time_66p_series :: "series list"
  compression_time_series :: "series list"
  decompression_time_series :: "series list"

record plots =
  unionKeys :: "string list"
  unionMap :: "(string \<times> union_meta) list"
  expShortNames :: "string list"
  plotsData :: "(string \<times> entry) list"













section \<open>Window/filter aggregator and visibility\<close>

text \<open>The global filter variables of the page, passed explicitly.\<close>

record filter_state =
  trimEdges :: bool
  minBlockSizeBytes :: real
  rangeMinT :: real
  rangeMaxT :: real

text \<open>
  \<open>hasBlocksAfterSizeFilter(item)\<close>; \<open>None\<close> is a key without an entry in
  \<open>PLOTS_DATA\<close>. Point values are numbers, so \<open>typeof p[1] === "number"\<close> holds.
\<close>

definition hasBlocksAfterSizeFilter :: "filter_state \<Rightarrow> entry option \<Rightarrow> bool" where
  "hasBlocksAfterSizeFilter fs item =
     (case item of
        None \<Rightarrow> False
      | Some it \<Rightarrow>
          if minBlockSizeBytes fs \<le> 0
          then list_ex (\<lambda>s. length (points s) > 0) (block_size_series it)
          else list_ex (\<lambda>s. list_ex (\<lambda>p. pt_v p \<ge> minBlockSizeBytes fs) (points s))
                 (block_size_series it))"

definition getVisibleUnionKeys :: "filter_state \<Rightarrow> plots \<Rightarrow> string list" where
  "getVisibleUnionKeys fs pl =
     filter (\<lambda>k. hasBlocksAfterSizeFilter fs (map_of (plotsData pl) k)) (unionKeys pl)"

text \<open>
  \<open>blockSizeById[p[2]]\<close>: a point without a third slot reads the property named
  "undefined".
\<close>

definition prop_key :: "block_id option \<Rightarrow> string" where
  "prop_key b = (case b of None \<Rightarrow> ''undefined'' | Some x \<Rightarrow> x)"

definition filterByBlockSize :: "filter_state \<Rightarrow> point list \<Rightarrow> (block_id \<times> real) list \<Rightarrow> point list" where
  "filterByBlockSize fs pts bsById =
     (if minBlockSizeBytes fs \<le> 0 then pts
      else if pts = [] then []
      else filter (\<lambda>p. case map_of bsById (prop_key (pt_block p)) of
                          Some sz \<Rightarrow> sz \<ge> minBlockSizeBytes fs
                        | None \<Rightarrow> False) pts)"

record bucket =
  b_sum :: real
  b_count :: nat
  b_sumT :: real

text \<open>
  The engine's rounded addition and division of numbers. In the bucketing loop the
  rounding of \<open>t / windowSec\<close> decides the bucket of a point, and the sums and means are
  rounded at every step, so both operations are parameters and every statement about
  bucketing holds for whatever they compute.
\<close>

record float_ops =
  fl_add :: "real \<Rightarrow> real \<Rightarrow> real"
  fl_div :: "real \<Rightarrow> real \<Rightarrow> real"

text \<open>The body of the bucketing loop for a point that lies inside the allowed interval.\<close>

definition bucket_add ::
  "float_ops \<Rightarrow> real \<Rightarrow> point \<Rightarrow> (int \<times> bucket) list \<Rightarrow> (int \<times> bucket) list"
where
  "bucket_add ops windowSec p buckets =
     (let b = \<lfloor>fl_div ops (pt_t p) windowSec\<rfloor> in
      case map_of buckets b of
        None \<Rightarrow> AList.update b \<lparr>b_sum = pt_v p, b_count = 1, b_sumT = pt_t p\<rparr> buckets
      | Some cur \<Rightarrow>
          AList.update b
            \<lparr>b_sum = fl_add ops (b_sum cur) (pt_v p), b_count = b_count cur + 1,
             b_sumT = fl_add ops (b_sumT cur) (pt_t p)\<rparr> buckets)"

definition bucket_point :: "float_ops \<Rightarrow> bucket \<Rightarrow> point" where
  "bucket_point ops b =
     (fl_div ops (b_sumT b) (real (b_count b)), fl_div ops (b_sum b) (real (b_count b)), None)"

text \<open>
  The last loop of \<open>aggregatePoints\<close>: one mean point per bucket, in ascending order of
  the bucket number. Every key taken from \<open>buckets.keys()\<close> has a bucket, so the \<open>None\<close>
  branch of the lookup is never taken.
\<close>

definition emitBuckets :: "float_ops \<Rightarrow> (int \<times> bucket) list \<Rightarrow> point list" where
  "emitBuckets ops buckets =
     (let keys = js_sort (\<lambda>a b. real_of_int a - real_of_int b) (map fst buckets)
      in concat (map (\<lambda>k. case map_of buckets k of
                             Some b \<Rightarrow> [bucket_point ops b]
                           | None \<Rightarrow> []) keys))"

text \<open>\<open>aggregatePoints(points, windowSec, blockSizeById)\<close>.\<close>

definition aggregatePoints ::
  "float_ops \<Rightarrow> filter_state \<Rightarrow> point list \<Rightarrow> real \<Rightarrow> (block_id \<times> real) list
     \<Rightarrow> point list"
where
  "aggregatePoints ops fs pts windowSec bsById =
     (if pts = [] then []
      else
        let sizeFiltered = filterByBlockSize fs pts bsById in
        if sizeFiltered = [] then []
        else
          let sorted = js_sort (\<lambda>a b. pt_t a - pt_t b) sizeFiltered;
              rangeFiltered =
                filter (\<lambda>p. pt_t p \<ge> rangeMinT fs \<and> pt_t p \<le> rangeMaxT fs) sorted
          in
            if rangeFiltered = [] then []
            else
              let minT = pt_t (hd rangeFiltered);
                  maxT = pt_t (last rangeFiltered);
                  allowedMin = (if trimEdges fs then minT + 300 else minT);
                  allowedMax = (if trimEdges fs then maxT - 120 else maxT)
              in
                if allowedMax < allowedMin then []
                else if windowSec \<le> 0 then
                  filter (\<lambda>p. pt_t p \<ge> allowedMin \<and> pt_t p \<le> allowedMax) rangeFiltered
                else
                  emitBuckets ops
                    (fold (\<lambda>p bs. if pt_t p < allowedMin \<or> pt_t p > allowedMax then bs
                                   else bucket_add ops windowSec p bs) rangeFiltered []))"

text \<open>
  What \<open>aggregatePoints\<close> emits for the points that survive its filters: the points
  themselves without bucketing, the bucket means otherwise.
\<close>

definition emitPoints :: "float_ops \<Rightarrow> real \<Rightarrow> point list \<Rightarrow> point list" where
  "emitPoints ops windowSec xs =
     (if windowSec \<le> 0 then xs
      else emitBuckets ops (fold (bucket_add ops windowSec) xs []))"

text \<open>The points of a series that pass the size filter and lie in the time window, by time.\<close>

definition survivors :: "filter_state \<Rightarrow> point list \<Rightarrow> (block_id \<times> real) list \<Rightarrow> point list" where
  "survivors fs pts bsById =
     filter (\<lambda>p. pt_t p \<ge> rangeMinT fs \<and> pt_t p \<le> rangeMaxT fs)
       (js_sort (\<lambda>a b. pt_t a - pt_t b) (filterByBlockSize fs pts bsById))"

section \<open>Best-value highlighting of the summary table\<close>

definition ROWS_SPEC :: "string list" where
  "ROWS_SPEC = [''num_blocks'', ''avg_block_size_bytes'', ''avg_compression_percent'',
     ''avg_broadcast_time_avg_s'', ''avg_broadcast_time_66p_s'', ''avg_broadcast_time_full_s'',
     ''avg_compression_time_s'', ''avg_decompression_time_s'']"

text \<open>
  The two search loops of \<open>rebuildAveragesTable\<close> over \<open>groupVals\<close>; the state is
  \<open>(bestVal, bestIdx)\<close>, both \<open>null\<close> at the start. \<open>None\<close> in \<open>groupVals\<close> is \<open>null\<close>.
\<close>

definition stepBestMax ::
  "real option list \<Rightarrow> nat \<Rightarrow> real option \<times> nat option \<Rightarrow> real option \<times> nat option"
where
  "stepBestMax groupVals i st =
     (case groupVals ! i of
        None \<Rightarrow> st
      | Some g \<Rightarrow>
          (case fst st of
             None \<Rightarrow> (Some g, Some i)
           | Some bestVal \<Rightarrow> if g > bestVal then (Some g, Some i) else st))"

definition stepBestMin ::
  "real option list \<Rightarrow> nat \<Rightarrow> real option \<times> nat option \<Rightarrow> real option \<times> nat option"
where
  "stepBestMin groupVals i st =
     (case groupVals ! i of
        None \<Rightarrow> st
      | Some g \<Rightarrow>
          if g > 0 then
            (case fst st of
               None \<Rightarrow> (Some g, Some i)
             | Some bestVal \<Rightarrow> if g < bestVal then (Some g, Some i) else st)
          else st)"

definition broadcastRows :: "string list" where
  "broadcastRows =
     [''avg_broadcast_time_avg_s'', ''avg_broadcast_time_full_s'', ''avg_broadcast_time_66p_s'']"

definition bestIdx :: "string \<Rightarrow> real option list \<Rightarrow> nat option" where
  "bestIdx keyName groupVals =
     (if keyName = ''avg_compression_percent'' then
        snd (fold (stepBestMax groupVals) [0..<length groupVals] (None, None))
      else if keyName \<in> set broadcastRows then
        snd (fold (stepBestMin groupVals) [0..<length groupVals] (None, None))
      else None)"

text \<open>
  The class a value cell gets besides \<open>group-start\<close>: a cell that shows "-" gets none.
\<close>

definition extraCls :: "string \<Rightarrow> real option list \<Rightarrow> nat \<Rightarrow> string" where
  "extraCls keyName groupVals i =
     (case Option.bind (js_at groupVals (int i)) (\<lambda>x. x) of
        None \<Rightarrow> []
      | Some val \<Rightarrow>
          if keyName = ''num_blocks'' \<and> val = 0 then []
          else (case bestIdx keyName groupVals of
                  None \<Rightarrow> []
                | Some b \<Rightarrow> if i = b then ''best-cell'' else ''other-cell''))"

section \<open>Notions used to state the properties\<close>

subsection \<open>The decoder and the block grouper\<close>

text \<open>A record is decoded when it has both a start offset and a duration.\<close>

definition decodable :: "(string \<rightharpoonup> nat) \<Rightarrow> raw_record \<Rightarrow> bool" where
  "decodable idx rec \<longleftrightarrow> field idx rec ''start_us'' \<noteq> None \<and> field idx rec ''duration_us'' \<noteq> None"

text \<open>The records array of a block entry; empty when the entry has none.\<close>

definition recordsOf :: "block_entry \<Rightarrow> raw_record option list" where
  "recordsOf entry = (case be_records entry of Records rs \<Rightarrow> rs | _ \<Rightarrow> [])"


text \<open>All records of the payload that are arrays, each with the id of its block.\<close>

definition allRecords :: "block_entry option list \<Rightarrow> (block_id \<times> raw_record) list" where
  "allRecords blocks =
     concat (map (\<lambda>b. case b of
                          None \<Rightarrow> []
                        | Some entry \<Rightarrow>
                            concat (map (\<lambda>r. case r of
                                                 None \<Rightarrow> []
                                               | Some rec \<Rightarrow> [(be_block_id entry, rec)])
                                      (recordsOf entry)))
               blocks)"

text \<open>The block ids that have at least one decoded record in the category with key \<open>k\<close>.\<close>

definition blocksOfCategory :: "decode_env \<Rightarrow> block_entry option list \<Rightarrow> string \<Rightarrow> block_id set" where
  "blocksOfCategory env blocks k =
     fst ` set (filter (\<lambda>br. decodable (recIdx env) (snd br) \<and> recordKey env (snd br) = k)
                  (allRecords blocks))"



text \<open>
  The block ids recorded for key \<open>k\<close> in \<open>grouped\<close>, and the shape of \<open>grouped\<close> that the
  insertion into \<open>Map\<close>s maintains: no key and no block id occurs twice.
\<close>

definition blockIds :: "(string \<times> group) list \<Rightarrow> string \<Rightarrow> block_id set" where
  "blockIds gs k = (case map_of gs k of None \<Rightarrow> {} | Some g \<Rightarrow> fst ` set (g_blocks g))"

definition groups_ok :: "(string \<times> group) list \<Rightarrow> bool" where
  "groups_ok gs \<longleftrightarrow>
     distinct (map fst gs) \<and> (\<forall>kg \<in> set gs. distinct (map fst (g_blocks (snd kg))))"

subsection \<open>The union builder\<close>







subsection \<open>The window/filter aggregator\<close>

text \<open>
  The interval the edge trim keeps, from the earliest and the latest surviving point:
  300 seconds are cut at the head and 120 at the tail when trimming is on.
\<close>

definition trim_lo :: "filter_state \<Rightarrow> point list \<Rightarrow> real" where
  "trim_lo fs sv = (if trimEdges fs then Min (pt_t ` set sv) + 300 else Min (pt_t ` set sv))"

definition trim_hi :: "filter_state \<Rightarrow> point list \<Rightarrow> real" where
  "trim_hi fs sv = (if trimEdges fs then Max (pt_t ` set sv) - 120 else Max (pt_t ` set sv))"

text \<open>
  The points that survive the filters, stated from their description: a point passes
  the size filter when the threshold is not positive or the lookup holds a size of at
  least the threshold for its block id (a point without a block id is looked up under
  "undefined"); the points that pass are put in ascending order of time, those inside
  the time window remain, and of these the edge trim keeps those inside its interval.
\<close>

definition size_ok :: "filter_state \<Rightarrow> (block_id \<times> real) list \<Rightarrow> point \<Rightarrow> bool" where
  "size_ok fs m p \<longleftrightarrow>
     minBlockSizeBytes fs \<le> 0 \<or>
     (case map_of m (case pt_block p of None \<Rightarrow> ''undefined'' | Some b \<Rightarrow> b) of
        Some sz \<Rightarrow> minBlockSizeBytes fs \<le> sz
      | None \<Rightarrow> False)"

definition in_window :: "filter_state \<Rightarrow> point \<Rightarrow> bool" where
  "in_window fs p \<longleftrightarrow> rangeMinT fs \<le> pt_t p \<and> pt_t p \<le> rangeMaxT fs"

definition windowed :: "filter_state \<Rightarrow> point list \<Rightarrow> (block_id \<times> real) list \<Rightarrow> point list" where
  "windowed fs pts m = filter (in_window fs) (sort_key pt_t (filter (size_ok fs m) pts))"

definition kept :: "filter_state \<Rightarrow> point list \<Rightarrow> (block_id \<times> real) list \<Rightarrow> point list" where
  "kept fs pts m =
     filter (\<lambda>p. trim_lo fs (windowed fs pts m) \<le> pt_t p \<and> pt_t p \<le> trim_hi fs (windowed fs pts m))
       (windowed fs pts m)"

text \<open>
  The bucket number of a point; the sum of a list of numbers as the loop accumulates
  it, from the first number on; the mean point of a list of points, which has no block
  id; and the mean point of the points of \<open>xs\<close> that fall into bucket \<open>k\<close>.
\<close>

definition group_key :: "float_ops \<Rightarrow> real \<Rightarrow> point \<Rightarrow> int" where
  "group_key ops w p = \<lfloor>fl_div ops (pt_t p) w\<rfloor>"

definition running_sum :: "float_ops \<Rightarrow> real list \<Rightarrow> real" where
  "running_sum ops xs = (case xs of [] \<Rightarrow> 0 | x # rest \<Rightarrow> foldl (fl_add ops) x rest)"

definition mean_point :: "float_ops \<Rightarrow> point list \<Rightarrow> point" where
  "mean_point ops ps =
     (fl_div ops (running_sum ops (map pt_t ps)) (real (length ps)),
      fl_div ops (running_sum ops (map pt_v ps)) (real (length ps)),
      None)"

definition group_mean :: "float_ops \<Rightarrow> real \<Rightarrow> point list \<Rightarrow> int \<Rightarrow> point" where
  "group_mean ops w xs k = mean_point ops (filter (\<lambda>p. group_key ops w p = k) xs)"

text \<open>The sums the bucketing loop holds for a list of points.\<close>

definition bucket_of :: "float_ops \<Rightarrow> point list \<Rightarrow> bucket" where
  "bucket_of ops ps =
     \<lparr>b_sum = running_sum ops (map pt_v ps), b_count = length ps,
      b_sumT = running_sum ops (map pt_t ps)\<rparr>"

text \<open>Exact arithmetic, for the examples.\<close>

definition exact_ops :: float_ops where
  "exact_ops = \<lparr>fl_add = (+), fl_div = (/)\<rparr>"

section \<open>Example inputs\<close>



text \<open>
  A payload with one category and two blocks: block b1 is compressed and then
  decompressed, block b2 is only compressed.
\<close>

definition numbers :: "real list \<Rightarrow> raw_record option" where
  "numbers xs = Some (map Some xs)"

definition example_blocks :: "block_entry option list" where
  "example_blocks =
     [Some \<lparr>be_block_id = ''b1'', be_size_map = Some [[Some 1000, Some 400]],
        be_records = Records [numbers [0, 0, 1000000, 0, 0, 0, 0, 0],
                              numbers [1, 2000000, 1000000, 1, 0, 0, 0, 0]]\<rparr>,
      Some \<lparr>be_block_id = ''b2'', be_size_map = Some [[Some 500, Some 100]],
        be_records = Records [numbers [0, 5000000, 1000000, 0, 0, 0, 0, 0]]\<rparr>]"

definition example_payload :: payload where
  "example_payload =
     \<lparr>p_experiment_name = Some ''E'',
      p_ts0 = Some ''1970-01-01T00:00:00Z'',
      p_record_fields = None,
      p_size_fields = None,
      p_maps = Some \<lparr>pm_stage = Some [''compress'', ''decompress''],
                     pm_type = Some [''T''], pm_called_from = Some [''O'']\<rparr>,
      p_blocks = Some example_blocks\<rparr>"

text \<open>The group the decoder builds for the only category of the example payload.\<close>

definition example_group :: group where
  "example_group =
     \<lparr>g_type = Some ''T'', g_called_from = Some ''O'',
      g_blocks =
        [(''b1'',
          [\<lparr>start_sec = 0, end_sec = 1, duration_sec = 1, stage = Some ''compress'',
            original_size = Some 1000, compressed_size = Some 400\<rparr>,
           \<lparr>start_sec = 2, end_sec = 3, duration_sec = 1, stage = Some ''decompress'',
            original_size = Some 1000, compressed_size = Some 400\<rparr>]),
         (''b2'',
          [\<lparr>start_sec = 5, end_sec = 6, duration_sec = 1, stage = Some ''compress'',
            original_size = Some 500, compressed_size = Some 100\<rparr>])]\<rparr>"





section \<open>Facts about the primitives\<close>

lemma insert_by_insort_key:
  "insert_by (\<lambda>a b. f a - f b) x xs = insort_key f x xs"
  by (induction xs) auto

lemma js_sort_sort_key: "js_sort (\<lambda>a b. f a - f b) xs = sort_key f xs"
  by (induction xs) (simp_all add: js_sort_def insert_by_insort_key)

lemma js_sort_sort: "js_sort (\<lambda>a b. a - b) xs = sort (xs :: real list)"
  using js_sort_sort_key [of "\<lambda>x. x" xs] by simp

lemma js_at_nth: "i < length xs \<Longrightarrow> js_at xs (int i) = Some (xs ! i)"
  by (simp add: js_at_def)

lemma sorted_nth0_Min: "sorted xs \<Longrightarrow> xs \<noteq> [] \<Longrightarrow> xs ! 0 = Min (set (xs::real list))"
  by (cases xs) (auto intro!: Min_eqI [symmetric])

lemma sorted_last_Max:
  "sorted xs \<Longrightarrow> xs \<noteq> [] \<Longrightarrow> xs ! (length xs - 1) = Max (set (xs::real list))"
proof (rule Max_eqI [symmetric])
  assume s: "sorted xs" and ne: "xs \<noteq> []"
  show "finite (set xs)" by simp
  show "xs ! (length xs - 1) \<in> set xs" using ne by simp
  fix y assume "y \<in> set xs"
  then obtain i where "i < length xs" "xs ! i = y" by (auto simp: in_set_conv_nth)
  then show "y \<le> xs ! (length xs - 1)"
    using sorted_nth_mono [OF s, of i "length xs - 1"] by auto
qed

lemma percentile_unfold:
  assumes "vs \<noteq> []" "length vs \<noteq> 1"
  shows "percentile vs p =
     (if \<lfloor>rank_pos vs p\<rfloor> = \<lceil>rank_pos vs p\<rceil>
      then js_at (sort vs) \<lfloor>rank_pos vs p\<rfloor>
      else (case (js_at (sort vs) \<lfloor>rank_pos vs p\<rfloor>,
                  js_at (sort vs) \<lceil>rank_pos vs p\<rceil>) of
              (Some a, Some b) \<Rightarrow>
                 Some (a * (1 - (rank_pos vs p - real_of_int \<lfloor>rank_pos vs p\<rfloor>))
                       + b * (rank_pos vs p - real_of_int \<lfloor>rank_pos vs p\<rfloor>))
            | _ \<Rightarrow> None))"
  unfolding percentile_def Let_def js_sort_sort rank_pos_def
  using assms by (simp only: if_False length_sort)

lemma percentile_single: "length vs = 1 \<Longrightarrow> percentile vs p = js_at (sort vs) 0"
  unfolding percentile_def Let_def js_sort_sort
  by (cases vs) (simp_all only: if_False if_True length_sort list.distinct list.size simp_thms)

lemma js_at_sort_in_range:
  "0 \<le> i \<Longrightarrow> i < int (length vs) \<Longrightarrow> js_at (sort vs) i = Some (sort vs ! nat i)"
  by (simp add: js_at_def)

lemma percentile_interp:
  assumes "2 \<le> length vs" "0 \<le> p" "p \<le> 100"
  shows "percentile vs p =
    Some (sort vs ! nat \<lfloor>rank_pos vs p\<rfloor> * (1 - (rank_pos vs p - real_of_int \<lfloor>rank_pos vs p\<rfloor>))
          + sort vs ! nat \<lceil>rank_pos vs p\<rceil> * (rank_pos vs p - real_of_int \<lfloor>rank_pos vs p\<rfloor>))"
proof -
  define n where "n = length vs"
  define pos where "pos = rank_pos vs p"
  have n2: "2 \<le> n" using assms by (simp add: n_def)
  have pos0: "0 \<le> pos" using assms n2 by (simp add: pos_def rank_pos_def n_def)
  have "p / 100 \<le> 1" using assms by simp
  then have "(p / 100) * (real n - 1) \<le> 1 * (real n - 1)"
    using n2 by (intro mult_right_mono) auto
  then have posn: "pos \<le> real n - 1" by (simp add: pos_def rank_pos_def n_def)
  have lo0: "0 \<le> \<lfloor>pos\<rfloor>" using pos0 by simp
  have "pos \<le> real_of_int (int n - 1)" using posn by simp
  then have "\<lceil>pos\<rceil> \<le> int n - 1" by (rule ceiling_le)
  then have up: "\<lceil>pos\<rceil> < int n" by simp
  have lo: "\<lfloor>pos\<rfloor> < int n" using up floor_le_ceiling [of pos] by linarith
  have up0: "0 \<le> \<lceil>pos\<rceil>" using lo0 floor_le_ceiling [of pos] by linarith
  have a: "js_at (sort vs) \<lfloor>pos\<rfloor> = Some (sort vs ! nat \<lfloor>pos\<rfloor>)"
    using lo0 lo unfolding n_def by (rule js_at_sort_in_range)
  have b: "js_at (sort vs) \<lceil>pos\<rceil> = Some (sort vs ! nat \<lceil>pos\<rceil>)"
    using up0 up unfolding n_def by (rule js_at_sort_in_range)
  have ne: "vs \<noteq> []" "length vs \<noteq> 1" using assms by auto
  show ?thesis
  proof (cases "\<lfloor>pos\<rfloor> = \<lceil>pos\<rceil>")
    case True
    have "real_of_int \<lceil>pos\<rceil> = real_of_int \<lfloor>pos\<rfloor>" by (simp only: True)
    then have w0: "pos - real_of_int \<lfloor>pos\<rfloor> = 0"
      using of_int_floor_le [of pos] le_of_int_ceiling [of pos] by linarith
    have "percentile vs p = js_at (sort vs) \<lfloor>pos\<rfloor>"
      unfolding percentile_unfold [OF ne] pos_def [symmetric]
      using True by (simp only: if_True simp_thms)
    also have "\<dots> = Some (sort vs ! nat \<lfloor>pos\<rfloor>)" by (rule a)
    finally show ?thesis
      unfolding pos_def [symmetric] by (simp only: w0) simp
  next
    case False
    then show ?thesis
      unfolding percentile_unfold [OF ne] pos_def [symmetric]
      using a b by simp
  qed
qed

lemma percentile_min: 
  assumes "vs \<noteq> []" shows "percentile vs 0 = Some (Min (set vs))"
proof -
  have ne: "sort vs \<noteq> []" using assms set_sort [of "\<lambda>x. x" vs] by (metis set_empty)
  then have m: "sort vs ! 0 = Min (set vs)" using sorted_nth0_Min [of "sort vs"] by simp
  have l: "0 < length vs" using assms by simp
  have j: "js_at (sort vs) 0 = Some (Min (set vs))" using m l by (simp add: js_at_def)
  show ?thesis
  proof (cases "length vs = 1")
    case True
    then show ?thesis using j by (simp only: percentile_single)
  next
    case False
    have z: "rank_pos vs 0 = 0" by (simp add: rank_pos_def)
    show ?thesis unfolding percentile_unfold [OF assms False] z using j by simp
  qed
qed

lemma percentile_max: 
  assumes "vs \<noteq> []" shows "percentile vs 100 = Some (Max (set vs))"
proof -
  have ne: "sort vs \<noteq> []" using assms set_sort [of "\<lambda>x. x" vs] by (metis set_empty)
  then have m: "sort vs ! (length vs - 1) = Max (set vs)"
    using sorted_last_Max [of "sort vs"] by simp
  have l: "0 < length vs" using assms by simp
  have r: "rank_pos vs 100 = real_of_int (int (length vs) - 1)" by (simp add: rank_pos_def)
  have n: "nat (int (length vs) - 1) = length vs - 1" using l by simp
  have j: "js_at (sort vs) (int (length vs) - 1) = Some (Max (set vs))"
    using m l n by (simp add: js_at_def)
  show ?thesis
  proof (cases "length vs = 1")
    case True
    then have "int (length vs) - 1 = 0" by simp
    with j have "js_at (sort vs) 0 = Some (Max (set vs))" by simp
    then show ?thesis using True by (simp only: percentile_single)
  next
    case False
    show ?thesis unfolding percentile_unfold [OF assms False] r floor_of_int ceiling_of_int
      using j by simp
  qed
qed

section \<open>The percentile contract\<close>

text \<open>
  Claim C4. \<open>percentile\<close> returns 0 for an empty sequence and the single element of a
  one-element sequence, for any \<open>p\<close>. For two or more values and \<open>p\<close> between 0 and 100
  it is the linear interpolation between the elements of the ascending-sorted values at
  the floor and the ceiling of the rank \<open>pos = (p / 100) * (n - 1)\<close>, weighted by the
  fractional part of \<open>pos\<close>. Hence, for a non-empty sequence, \<open>percentile\<close> at 0 is the
  minimum and at 100 the maximum.
\<close>

theorem percentile_contract:
  "percentile [] p = Some 0 \<and>
   percentile [x] p = Some x \<and>
   (2 \<le> length vs \<and> 0 \<le> p \<and> p \<le> 100 \<longrightarrow>
      percentile vs p =
        Some (let pos = (p / 100) * (real (length vs) - 1);
                  weight = pos - real_of_int \<lfloor>pos\<rfloor>
              in sort vs ! nat \<lfloor>pos\<rfloor> * (1 - weight) + sort vs ! nat \<lceil>pos\<rceil> * weight)) \<and>
   (vs \<noteq> [] \<longrightarrow>
      percentile vs 0 = Some (Min (set vs)) \<and> percentile vs 100 = Some (Max (set vs)))"
proof -
  have e: "percentile [] p = Some 0" by (simp add: percentile_def)
  have "percentile [x] p = js_at (sort [x]) 0" by (rule percentile_single) simp
  then have s: "percentile [x] p = Some x" by (simp add: js_at_def)
  have i: "2 \<le> length vs \<and> 0 \<le> p \<and> p \<le> 100 \<longrightarrow>
      percentile vs p =
        Some (let pos = (p / 100) * (real (length vs) - 1);
                  weight = pos - real_of_int \<lfloor>pos\<rfloor>
              in sort vs ! nat \<lfloor>pos\<rfloor> * (1 - weight) + sort vs ! nat \<lceil>pos\<rceil> * weight)"
    using percentile_interp [of vs p] unfolding rank_pos_def Let_def by blast
  show ?thesis using e s i percentile_min [of vs] percentile_max [of vs] by blast
qed

theorem percentile_contract_witness:
  "2 \<le> length [20, 10, 15 :: real] \<and> (0::real) \<le> 66 \<and> (66::real) \<le> 100 \<and>
   [20, 10, 15 :: real] \<noteq> [] \<and>
   percentile [20, 10, 15] 66 = Some (83 / 5) \<and>
   percentile [20, 10, 15] 0 = Some 10 \<and>
   percentile [20, 10, 15] 100 = Some 20"
  using percentile_contract [of 66 0 "[20, 10, 15]"]
  by (simp add: Let_def)

section \<open>Visibility of a category\<close>

lemma hasBlocks_iff:
  "hasBlocksAfterSizeFilter fs (Some it) \<longleftrightarrow>
     (\<exists>s \<in> set (block_size_series it).
        filter (\<lambda>p. minBlockSizeBytes fs \<le> 0 \<or> minBlockSizeBytes fs \<le> pt_v p) (points s) \<noteq> [])"
proof (cases "minBlockSizeBytes fs \<le> 0")
  case True
  then show ?thesis
    by (simp add: hasBlocksAfterSizeFilter_def list_ex_iff)
next
  case False
  then show ?thesis
    by (simp add: hasBlocksAfterSizeFilter_def list_ex_iff filter_empty_conv)
qed

text \<open>
  Claim C1, as amended. A category key is shown (summary table and chart tabs) exactly when
  it is a union key with an entry in which the \<open>block_size\<close> series of at least one
  experiment keeps a point under the size filter (the point's value is at least
  \<open>minBlockSizeBytes\<close>; every point passes when the threshold is not positive). So a
  category is hidden exactly when no experiment keeps such a point. The time window
  plays no part.
\<close>

theorem visible_iff_some_experiment_survives:
  "(k \<in> set (getVisibleUnionKeys fs pl) \<longleftrightarrow>
      k \<in> set (unionKeys pl) \<and>
      (\<exists>it. map_of (plotsData pl) k = Some it \<and>
         (\<exists>s \<in> set (block_size_series it).
            filter (\<lambda>p. minBlockSizeBytes fs \<le> 0 \<or> minBlockSizeBytes fs \<le> pt_v p) (points s) \<noteq> []))) \<and>
   getVisibleUnionKeys (fs\<lparr>rangeMinT := lo, rangeMaxT := hi\<rparr>) pl = getVisibleUnionKeys fs pl"
proof -
  have a: "hasBlocksAfterSizeFilter fs (map_of (plotsData pl) k) \<longleftrightarrow>
      (\<exists>it. map_of (plotsData pl) k = Some it \<and>
         (\<exists>s \<in> set (block_size_series it).
            filter (\<lambda>p. minBlockSizeBytes fs \<le> 0 \<or> minBlockSizeBytes fs \<le> pt_v p) (points s) \<noteq> []))"
  proof (cases "map_of (plotsData pl) k")
    case None
    then show ?thesis by (simp add: hasBlocksAfterSizeFilter_def)
  next
    case (Some it)
    then show ?thesis using hasBlocks_iff [of fs it] by simp
  qed
  have b: "hasBlocksAfterSizeFilter (fs\<lparr>rangeMinT := lo, rangeMaxT := hi\<rparr>) = hasBlocksAfterSizeFilter fs"
    by (intro ext) (simp add: hasBlocksAfterSizeFilter_def split: option.split)
  show ?thesis using a by (simp add: getVisibleUnionKeys_def b)
qed

text \<open>
  The claim as stated fails: experiment A keeps no point of size at least 1000, while
  experiment B does, and the category is shown.
\<close>

theorem hidden_for_all_counterexample:
  "filterByBlockSize \<lparr>trimEdges = True, minBlockSizeBytes = 1000, rangeMinT = 0, rangeMaxT = 10\<rparr>
      [(0, 500, Some ''a'')] [(''a'', 500)] = [] \<and>
   getVisibleUnionKeys \<lparr>trimEdges = True, minBlockSizeBytes = 1000, rangeMinT = 0, rangeMaxT = 10\<rparr>
     \<lparr>unionKeys = [''X__None''], unionMap = [], expShortNames = [''A'', ''B''],
      plotsData = [(''X__None'',
        \<lparr>label = ''X'',
         block_size_by_id_series = [[(''a'', 500)], [(''b'', 2000)]],
         block_size_series =
           [\<lparr>s_name = ''A'', base_ts = None, points = [(0, 500, Some ''a'')]\<rparr>,
            \<lparr>s_name = ''B'', base_ts = None, points = [(0, 2000, Some ''b'')]\<rparr>],
         compression_percent_series = [], broadcast_time_avg_series = [],
         broadcast_time_full_series = [], broadcast_time_66p_series = [],
         compression_time_series = [], decompression_time_series = []\<rparr>)]\<rparr>
     = [''X__None'']"
  by (simp add: filterByBlockSize_def getVisibleUnionKeys_def hasBlocksAfterSizeFilter_def
      prop_key_def pt_block_def pt_v_def)

theorem visible_iff_witness:
  "''X__None'' \<in> set (getVisibleUnionKeys \<lparr>trimEdges = True, minBlockSizeBytes = 1000, rangeMinT = 0, rangeMaxT = 10\<rparr>
     \<lparr>unionKeys = [''X__None''], unionMap = [], expShortNames = [''A'', ''B''],
      plotsData = [(''X__None'',
        \<lparr>label = ''X'',
         block_size_by_id_series = [[(''a'', 500)], [(''b'', 2000)]],
         block_size_series =
           [\<lparr>s_name = ''A'', base_ts = None, points = [(0, 500, Some ''a'')]\<rparr>,
            \<lparr>s_name = ''B'', base_ts = None, points = [(0, 2000, Some ''b'')]\<rparr>],
         compression_percent_series = [], broadcast_time_avg_series = [],
         broadcast_time_full_series = [], broadcast_time_66p_series = [],
         compression_time_series = [], decompression_time_series = []\<rparr>)]\<rparr>)"
  using visible_iff_some_experiment_survives [of "''X__None''"
     "\<lparr>trimEdges = True, minBlockSizeBytes = 1000, rangeMinT = 0, rangeMaxT = 10\<rparr>"
     "\<lparr>unionKeys = [''X__None''], unionMap = [], expShortNames = [''A'', ''B''],
      plotsData = [(''X__None'',
        \<lparr>label = ''X'',
         block_size_by_id_series = [[(''a'', 500)], [(''b'', 2000)]],
         block_size_series =
           [\<lparr>s_name = ''A'', base_ts = None, points = [(0, 500, Some ''a'')]\<rparr>,
            \<lparr>s_name = ''B'', base_ts = None, points = [(0, 2000, Some ''b'')]\<rparr>],
         compression_percent_series = [], broadcast_time_avg_series = [],
         broadcast_time_full_series = [], broadcast_time_66p_series = [],
         compression_time_series = [], decompression_time_series = []\<rparr>)]\<rparr>" 0 10]
  by (simp add: pt_v_def)

section \<open>Best-value highlighting\<close>

lemma best_max_inv:
  "n \<le> length vals \<Longrightarrow>
   (case fold (stepBestMax vals) [0..<n] (None, None) of
      (bv, bi) \<Rightarrow>
        (case bi of
           None \<Rightarrow> bv = None \<and> (\<forall>j<n. vals ! j = None)
         | Some i \<Rightarrow> i < n \<and> (\<exists>v. bv = Some v \<and> vals ! i = Some v \<and>
                        (\<forall>j<n. \<forall>w. vals ! j = Some w \<longrightarrow> w \<le> v))))"
proof (induction n)
  case 0
  then show ?case by simp
next
  case (Suc n)
  obtain bv bi where st: "fold (stepBestMax vals) [0..<n] (None, None) = (bv, bi)"
    by (cases "fold (stepBestMax vals) [0..<n] (None, None)")
  have ih: "(case bi of
           None \<Rightarrow> bv = None \<and> (\<forall>j<n. vals ! j = None)
         | Some i \<Rightarrow> i < n \<and> (\<exists>v. bv = Some v \<and> vals ! i = Some v \<and>
                        (\<forall>j<n. \<forall>w. vals ! j = Some w \<longrightarrow> w \<le> v)))"
    using Suc st by simp
  have step: "fold (stepBestMax vals) [0..<Suc n] (None, None) = stepBestMax vals n (bv, bi)"
    by (simp add: st)
  show ?case
    unfolding step using ih
    by (cases "vals ! n"; cases bi; cases bv)
       (auto simp: stepBestMax_def less_Suc_eq intro: order_trans)
qed

lemma best_min_inv:
  "n \<le> length vals \<Longrightarrow>
   (case fold (stepBestMin vals) [0..<n] (None, None) of
      (bv, bi) \<Rightarrow>
        (case bi of
           None \<Rightarrow> bv = None \<and> (\<forall>j<n. \<forall>w. vals ! j = Some w \<longrightarrow> \<not> 0 < w)
         | Some i \<Rightarrow> i < n \<and> (\<exists>v. bv = Some v \<and> vals ! i = Some v \<and> 0 < v \<and>
                        (\<forall>j<n. \<forall>w. vals ! j = Some w \<and> 0 < w \<longrightarrow> v \<le> w))))"
proof (induction n)
  case 0
  then show ?case by simp
next
  case (Suc n)
  obtain bv bi where st: "fold (stepBestMin vals) [0..<n] (None, None) = (bv, bi)"
    by (cases "fold (stepBestMin vals) [0..<n] (None, None)")
  have ih: "(case bi of
           None \<Rightarrow> bv = None \<and> (\<forall>j<n. \<forall>w. vals ! j = Some w \<longrightarrow> \<not> 0 < w)
         | Some i \<Rightarrow> i < n \<and> (\<exists>v. bv = Some v \<and> vals ! i = Some v \<and> 0 < v \<and>
                        (\<forall>j<n. \<forall>w. vals ! j = Some w \<and> 0 < w \<longrightarrow> v \<le> w)))"
    using Suc st by simp
  have step: "fold (stepBestMin vals) [0..<Suc n] (None, None) = stepBestMin vals n (bv, bi)"
    by (simp add: st)
  show ?case
    unfolding step using ih
    by (cases "vals ! n"; cases bi; cases bv)
       (auto simp: stepBestMin_def less_Suc_eq intro: order_trans)
qed

lemma best_max_spec:
  assumes "snd (fold (stepBestMax vals) [0..<length vals] (None, None)) = r"
  shows "(r = Some i \<longrightarrow> i < length vals \<and>
            (\<exists>v. vals ! i = Some v \<and> (\<forall>w. Some w \<in> set vals \<longrightarrow> w \<le> v))) \<and>
         ((\<exists>w. Some w \<in> set vals) \<longrightarrow> r \<noteq> None)"
  using best_max_inv [of "length vals" vals] assms
  by (cases "fold (stepBestMax vals) [0..<length vals] (None, None)")
     (auto simp: in_set_conv_nth split: option.splits)

lemma best_min_spec:
  assumes "snd (fold (stepBestMin vals) [0..<length vals] (None, None)) = r"
  shows "(r = Some i \<longrightarrow> i < length vals \<and>
            (\<exists>v. vals ! i = Some v \<and> 0 < v \<and> (\<forall>w. Some w \<in> set vals \<and> 0 < w \<longrightarrow> v \<le> w))) \<and>
         ((\<exists>w. Some w \<in> set vals \<and> 0 < w) \<longrightarrow> r \<noteq> None)"
  using best_min_inv [of "length vals" vals] assms
  by (cases "fold (stepBestMin vals) [0..<length vals] (None, None)")
     (auto simp: in_set_conv_nth split: option.splits)

lemma extraCls_best: "extraCls k vals j = ''best-cell'' \<Longrightarrow> bestIdx k vals = Some j"
  by (auto simp: extraCls_def split: option.splits if_splits)

text \<open>
  Claim C8. In the row of the average compression percent the entry chosen as best holds
  the maximum of the non-null values, and one is chosen whenever a non-null value exists.
  In each of the three broadcast-time rows the entry chosen holds the minimum of the
  values that are non-null and strictly positive, so never a 0, and one is chosen
  whenever such a value exists. No other row chooses a best entry, and a cell is marked
  best only if it is the chosen entry.
\<close>

theorem best_value_highlighting:
  "(bestIdx ''avg_compression_percent'' vals = Some i \<longrightarrow>
      i < length vals \<and> (\<exists>v. vals ! i = Some v \<and> (\<forall>w. Some w \<in> set vals \<longrightarrow> w \<le> v))) \<and>
   ((\<exists>w. Some w \<in> set vals) \<longrightarrow> bestIdx ''avg_compression_percent'' vals \<noteq> None) \<and>
   (k \<in> {''avg_broadcast_time_avg_s'', ''avg_broadcast_time_full_s'',
          ''avg_broadcast_time_66p_s''} \<longrightarrow>
      (bestIdx k vals = Some i \<longrightarrow>
         i < length vals \<and>
         (\<exists>v. vals ! i = Some v \<and> 0 < v \<and> (\<forall>w. Some w \<in> set vals \<and> 0 < w \<longrightarrow> v \<le> w))) \<and>
      ((\<exists>w. Some w \<in> set vals \<and> 0 < w) \<longrightarrow> bestIdx k vals \<noteq> None)) \<and>
   (k \<notin> {''avg_compression_percent'', ''avg_broadcast_time_avg_s'',
          ''avg_broadcast_time_full_s'', ''avg_broadcast_time_66p_s''} \<longrightarrow>
      bestIdx k vals = None) \<and>
   (extraCls k vals j = ''best-cell'' \<longrightarrow> bestIdx k vals = Some j)"
proof -
  have a: "bestIdx ''avg_compression_percent'' vals =
      snd (fold (stepBestMax vals) [0..<length vals] (None, None))"
    by (simp add: bestIdx_def)
  have p1: "bestIdx ''avg_compression_percent'' vals = Some i \<longrightarrow>
      i < length vals \<and> (\<exists>v. vals ! i = Some v \<and> (\<forall>w. Some w \<in> set vals \<longrightarrow> w \<le> v))"
    using best_max_spec [OF a [symmetric], of i] by (rule conjunct1)
  have p2: "(\<exists>w. Some w \<in> set vals) \<longrightarrow> bestIdx ''avg_compression_percent'' vals \<noteq> None"
    using best_max_spec [OF a [symmetric], of i] by (rule conjunct2)
  have p3: "k \<in> {''avg_broadcast_time_avg_s'', ''avg_broadcast_time_full_s'',
          ''avg_broadcast_time_66p_s''} \<longrightarrow>
      (bestIdx k vals = Some i \<longrightarrow>
         i < length vals \<and>
         (\<exists>v. vals ! i = Some v \<and> 0 < v \<and> (\<forall>w. Some w \<in> set vals \<and> 0 < w \<longrightarrow> v \<le> w))) \<and>
      ((\<exists>w. Some w \<in> set vals \<and> 0 < w) \<longrightarrow> bestIdx k vals \<noteq> None)"
  proof
    assume "k \<in> {''avg_broadcast_time_avg_s'', ''avg_broadcast_time_full_s'',
          ''avg_broadcast_time_66p_s''}"
    then have "k \<in> set broadcastRows" by (simp only: broadcastRows_def list.set)
    moreover have "k \<noteq> ''avg_compression_percent''"
      using \<open>k \<in> set broadcastRows\<close> by (auto simp: broadcastRows_def)
    ultimately have b: "bestIdx k vals =
        snd (fold (stepBestMin vals) [0..<length vals] (None, None))"
      by (simp only: bestIdx_def if_True if_False)
    show "(bestIdx k vals = Some i \<longrightarrow>
         i < length vals \<and>
         (\<exists>v. vals ! i = Some v \<and> 0 < v \<and> (\<forall>w. Some w \<in> set vals \<and> 0 < w \<longrightarrow> v \<le> w))) \<and>
      ((\<exists>w. Some w \<in> set vals \<and> 0 < w) \<longrightarrow> bestIdx k vals \<noteq> None)"
      by (rule best_min_spec [OF b [symmetric], of i])
  qed
  have p4: "k \<notin> {''avg_compression_percent'', ''avg_broadcast_time_avg_s'',
          ''avg_broadcast_time_full_s'', ''avg_broadcast_time_66p_s''} \<longrightarrow>
      bestIdx k vals = None"
    by (simp add: bestIdx_def broadcastRows_def)
  have p5: "extraCls k vals j = ''best-cell'' \<longrightarrow> bestIdx k vals = Some j"
    using extraCls_best [of k vals j] by (rule impI)
  show ?thesis by (intro conjI p1 p2 p3 p4 p5)
qed

theorem best_value_highlighting_witness:
  "bestIdx ''avg_compression_percent'' [Some (1 / 10), Some (1 / 4), None] = Some 1 \<and>
   ''avg_broadcast_time_avg_s'' \<in> {''avg_broadcast_time_avg_s'',
      ''avg_broadcast_time_full_s'', ''avg_broadcast_time_66p_s''} \<and>
   bestIdx ''avg_broadcast_time_avg_s'' [Some 0, Some 5, Some 3] = Some 2 \<and>
   extraCls ''avg_broadcast_time_avg_s'' [Some 0, Some 5, Some 3] 2 = ''best-cell'' \<and>
   extraCls ''avg_broadcast_time_avg_s'' [Some 0, Some 5, Some 3] 0 = ''other-cell'' \<and>
   ''avg_block_size_bytes'' \<notin> {''avg_compression_percent'', ''avg_broadcast_time_avg_s'',
      ''avg_broadcast_time_full_s'', ''avg_broadcast_time_66p_s''} \<and>
   bestIdx ''avg_block_size_bytes'' [Some 0, Some 5, Some 3] = None"
proof -
  have e1: "bestIdx ''avg_compression_percent'' [Some (1 / 10), Some (1 / 4), None] = Some 1"
    by (simp add: bestIdx_def stepBestMax_def)
  have e2: "bestIdx ''avg_broadcast_time_avg_s'' [Some 0, Some 5, Some 3] = Some 2"
    by (simp add: bestIdx_def broadcastRows_def stepBestMin_def)
  have e3: "extraCls ''avg_broadcast_time_avg_s'' [Some 0, Some 5, Some 3] 2 = ''best-cell''"
    by (simp add: extraCls_def e2 js_at_def)
  have e4: "extraCls ''avg_broadcast_time_avg_s'' [Some 0, Some 5, Some 3] 0 = ''other-cell''"
    by (simp add: extraCls_def e2 js_at_def)
  have e5: "''avg_block_size_bytes'' \<notin> {''avg_compression_percent'',
      ''avg_broadcast_time_avg_s'', ''avg_broadcast_time_full_s'', ''avg_broadcast_time_66p_s''}"
    by simp
  have e6: "bestIdx ''avg_block_size_bytes'' [Some 0, Some 5, Some 3] = None"
    by (rule best_value_highlighting
        [THEN conjunct2, THEN conjunct2, THEN conjunct2, THEN conjunct1, THEN mp, OF e5])
  have e7: "''avg_broadcast_time_avg_s'' \<in> {''avg_broadcast_time_avg_s'',
      ''avg_broadcast_time_full_s'', ''avg_broadcast_time_66p_s''}"
    by simp
  show ?thesis by (intro conjI e1 e2 e3 e4 e5 e6 e7)
qed

section \<open>The union builder\<close>


lemma mset_insert_by: "mset (insert_by cmp x xs) = add_mset x (mset xs)"
  by (induction xs) auto

lemma mset_js_sort: "mset (js_sort cmp xs) = mset xs"
  by (induction xs) (simp_all add: js_sort_def mset_insert_by)

































section \<open>The structure of the window/filter aggregator\<close>

lemma js_sort_by_time: "js_sort (\<lambda>a b. pt_t a - pt_t b) xs = sort_key pt_t xs"
  by (rule js_sort_sort_key)

lemma fold_skip_filter:
  "fold (\<lambda>p bs. if \<not> P p then bs else f p bs) xs acc = fold f (filter P xs) acc"
  by (induction xs arbitrary: acc) simp_all

lemma survivors_sorted: "sorted (map pt_t (survivors fs pts m))"
  by (simp add: survivors_def js_sort_by_time sorted_filter)

lemma survivors_Nil: "survivors fs [] m = []"
  by (simp add: survivors_def filterByBlockSize_def js_sort_def)

lemma sorted_hd_Min_key:
  assumes "sorted (map f xs)" "xs \<noteq> []"
  shows "f (hd xs) = Min (f ` set xs)"
proof -
  obtain y ys where xs: "xs = y # ys" using assms(2) by (cases xs) auto
  show ?thesis using assms(1) unfolding xs
    by (auto intro!: Min_eqI [symmetric])
qed

lemma sorted_last_Max_key:
  assumes "sorted (map f xs)" "xs \<noteq> []"
  shows "f (last xs) = Max (f ` set xs)"
proof (rule Max_eqI [symmetric])
  show "finite (f ` set xs)" by simp
  show "f (last xs) \<in> f ` set xs" using assms(2) by simp
  fix y assume "y \<in> f ` set xs"
  then obtain i where i: "i < length xs" "f (xs ! i) = y" by (auto simp: in_set_conv_nth)
  have "map f xs ! i \<le> map f xs ! (length xs - 1)"
    using assms(1) i(1) by (intro sorted_nth_mono) auto
  then show "y \<le> f (last xs)" using i assms(2) by (simp add: last_conv_nth)
qed

lemma emitBuckets_Nil: "emitBuckets ops [] = []"
  by (simp add: emitBuckets_def js_sort_def)

lemma emitPoints_Nil: "emitPoints ops w [] = []"
  by (simp add: emitPoints_def emitBuckets_Nil)

lemma aggregatePoints_char:
  "aggregatePoints ops fs pts w m =
     emitPoints ops w (filter (\<lambda>p. trim_lo fs (survivors fs pts m) \<le> pt_t p \<and>
                              pt_t p \<le> trim_hi fs (survivors fs pts m))
                     (survivors fs pts m))"
proof (cases "survivors fs pts m = []")
  case True
  have "aggregatePoints ops fs pts w m = []"
    using True unfolding aggregatePoints_def survivors_def Let_def
    by (auto simp: js_sort_def)
  then show ?thesis using True by (simp add: emitPoints_Nil)
next
  case False
  define sv where "sv = survivors fs pts m"
  have ne: "sv \<noteq> []" using False by (simp add: sv_def)
  have srt: "sorted (map pt_t sv)" unfolding sv_def by (rule survivors_sorted)
  have mn: "pt_t (hd sv) = Min (pt_t ` set sv)" by (rule sorted_hd_Min_key [OF srt ne])
  have mx: "pt_t (last sv) = Max (pt_t ` set sv)" by (rule sorted_last_Max_key [OF srt ne])
  have p: "pts \<noteq> []" using False survivors_Nil by auto
  have sf: "filterByBlockSize fs pts m \<noteq> []"
    using False by (auto simp: survivors_def js_sort_def)
  have lo: "(if trimEdges fs then pt_t (hd sv) + 300 else pt_t (hd sv)) = trim_lo fs sv"
    by (simp add: trim_lo_def mn)
  have hi: "(if trimEdges fs then pt_t (last sv) - 120 else pt_t (last sv)) = trim_hi fs sv"
    by (simp add: trim_hi_def mx)
  have unfold: "aggregatePoints ops fs pts w m =
      (if trim_hi fs sv < trim_lo fs sv then []
       else if w \<le> 0 then filter (\<lambda>p. pt_t p \<ge> trim_lo fs sv \<and> pt_t p \<le> trim_hi fs sv) sv
       else emitBuckets ops
              (fold (\<lambda>p bs. if pt_t p < trim_lo fs sv \<or> pt_t p > trim_hi fs sv then bs
                             else bucket_add ops w p bs) sv []))"
    unfolding aggregatePoints_def Let_def survivors_def [symmetric] sv_def [symmetric] lo hi
    using p sf ne by (simp only: if_False)
  have skip: "fold (\<lambda>p bs. if pt_t p < trim_lo fs sv \<or> pt_t p > trim_hi fs sv then bs
                             else bucket_add ops w p bs) sv [] =
      fold (bucket_add ops w) (filter (\<lambda>p. trim_lo fs sv \<le> pt_t p \<and> pt_t p \<le> trim_hi fs sv) sv) []"
    using fold_skip_filter [of "\<lambda>p. trim_lo fs sv \<le> pt_t p \<and> pt_t p \<le> trim_hi fs sv"
        "bucket_add ops w" sv "[]"]
    by (simp add: not_le not_less de_Morgan_conj)
  have empty: "trim_hi fs sv < trim_lo fs sv \<Longrightarrow>
      filter (\<lambda>p. trim_lo fs sv \<le> pt_t p \<and> pt_t p \<le> trim_hi fs sv) sv = []"
    by (auto simp: filter_empty_conv)
  show ?thesis
    unfolding sv_def [symmetric] unfold skip
    by (auto simp: emitPoints_def emitBuckets_Nil empty conj_commute)
qed


lemma filterByBlockSize_size_ok: "filterByBlockSize fs pts m = filter (size_ok fs m) pts"
proof (cases "minBlockSizeBytes fs \<le> 0")
  case True
  then show ?thesis by (simp add: filterByBlockSize_def size_ok_def)
next
  case False
  have "(\<lambda>p. case map_of m (prop_key (pt_block p)) of
                 Some sz \<Rightarrow> sz \<ge> minBlockSizeBytes fs | None \<Rightarrow> False) = size_ok fs m"
    using False by (auto simp: size_ok_def prop_key_def fun_eq_iff)
  then show ?thesis using False by (simp add: filterByBlockSize_def)
qed

lemma survivors_windowed: "survivors fs pts m = windowed fs pts m"
proof -
  have "(\<lambda>p. pt_t p \<ge> rangeMinT fs \<and> pt_t p \<le> rangeMaxT fs) = in_window fs"
    by (simp add: in_window_def fun_eq_iff)
  then show ?thesis
    by (simp add: survivors_def windowed_def js_sort_by_time filterByBlockSize_size_ok)
qed

lemma aggregatePoints_kept: "aggregatePoints ops fs pts w m = emitPoints ops w (kept fs pts m)"
  by (simp add: aggregatePoints_char [of ops fs pts w m] kept_def survivors_windowed)

section \<open>Edge trimming\<close>




section \<open>The decoder: records that are skipped and elements that raise\<close>


lemma decodeRecord_skip: "\<not> decodable (recIdx env) rec \<Longrightarrow> decodeRecord env bid sm rec st = st"
  by (auto simp: decodable_def decodeRecord_def split: option.splits)

lemma decodeEntry_None: "decodeEntry env bid sm None st = Inl TypeError"
  by (simp add: decodeEntry_def)

lemma decodeEntry_Some: "decodeEntry env bid sm (Some rec) st = Inr (decodeRecord env bid sm rec st)"
  by (simp add: decodeEntry_def)



lemma allRecords_Cons_None: "allRecords (None # blocks) = allRecords blocks"
  by (simp add: allRecords_def)





lemma allRecords_Cons: "allRecords (b # blocks) = allRecords [b] @ allRecords blocks"
  by (simp add: allRecords_def)





lemma default_recordIndex:
  "indexMap defaultRecordFields defaultRecordFields =
     [''node_idx'' \<mapsto> 0, ''start_us'' \<mapsto> 1, ''duration_us'' \<mapsto> 2, ''stage_idx'' \<mapsto> 3,
      ''type_idx'' \<mapsto> 4, ''called_from_idx'' \<mapsto> 5, ''compression_idx'' \<mapsto> 6,
      ''size_idx'' \<mapsto> 7]"
  by (simp add: indexMap_def defaultRecordFields_def eval_nat_numeral)




section \<open>The block grouper\<close>




lemma foldl_plus_sum_list: "foldl (+) a xs = a + sum_list (xs :: real list)"
  by (induction xs arbitrary: a) simp_all




lemma pushTimePoint_keeps:
  "blockSizePointsDt (pushTimePoint bid r a) = blockSizePointsDt a"
  "compressionPercentPointsDt (pushTimePoint bid r a) = compressionPercentPointsDt a"
  "broadcastTimeAvgPointsDt (pushTimePoint bid r a) = broadcastTimeAvgPointsDt a"
  "broadcastTimeFullPointsDt (pushTimePoint bid r a) = broadcastTimeFullPointsDt a"
  "broadcastTime66pPointsDt (pushTimePoint bid r a) = broadcastTime66pPointsDt a"
  "blockSizeById (pushTimePoint bid r a) = blockSizeById a"
  by (simp_all add: pushTimePoint_def)

lemma fold_pushTimePoint_keeps:
  "blockSizePointsDt (fold (pushTimePoint bid) rs a) = blockSizePointsDt a"
  "compressionPercentPointsDt (fold (pushTimePoint bid) rs a) = compressionPercentPointsDt a"
  "broadcastTimeAvgPointsDt (fold (pushTimePoint bid) rs a) = broadcastTimeAvgPointsDt a"
  "broadcastTimeFullPointsDt (fold (pushTimePoint bid) rs a) = broadcastTimeFullPointsDt a"
  "broadcastTime66pPointsDt (fold (pushTimePoint bid) rs a) = broadcastTime66pPointsDt a"
  "blockSizeById (fold (pushTimePoint bid) rs a) = blockSizeById a"
  by (induction rs arbitrary: a) (simp_all add: pushTimePoint_keeps)












section \<open>The number of blocks of a category\<close>

lemma set_update_cases:
  "kv \<in> set (AList.update k v al) \<Longrightarrow> kv = (k, v) \<or> kv \<in> set al"
  by (induction al) (auto split: if_splits)

lemma groups_ok_update:
  assumes "groups_ok gs" "distinct (map fst (g_blocks g))"
  shows "groups_ok (AList.update k g gs)"
  using assms unfolding groups_ok_def
  by (auto simp: distinct_update dest!: set_update_cases)

lemma blockIds_update:
  "blockIds (AList.update k g gs) k' = (if k' = k then fst ` set (g_blocks g) else blockIds gs k')"
  by (simp add: blockIds_def update_conv')

lemma groups_ok_lookup:
  "groups_ok gs \<Longrightarrow> map_of gs k = Some g \<Longrightarrow> distinct (map fst (g_blocks g))"
  unfolding groups_ok_def by (auto dest!: map_of_SomeD)

lemma decodeRecord_ok:
  assumes ok: "groups_ok (grouped st)"
  shows "groups_ok (grouped (decodeRecord env bid sm rec st))"
proof (cases "decodable (recIdx env) rec")
  case True
  then obtain s d where sd: "field (recIdx env) rec ''start_us'' = Some s"
      "field (recIdx env) rec ''duration_us'' = Some d"
    by (auto simp: decodable_def)
  show ?thesis
  proof (cases "map_of (grouped st) (recordKey env rec)")
    case None
    show ?thesis
      unfolding decodeRecord_def Let_def sd
      by (simp add: None groups_ok_update [OF ok])
  next
    case (Some g)
    have "distinct (map fst (g_blocks g))" using ok Some by (rule groups_ok_lookup)
    then show ?thesis
      unfolding decodeRecord_def Let_def sd
      by (simp add: Some groups_ok_update [OF ok] distinct_update)
  qed
next
  case False
  then show ?thesis using ok by (simp add: decodeRecord_skip)
qed

lemma decodeRecord_blockIds:
  "blockIds (grouped (decodeRecord env bid sm rec st)) k =
     blockIds (grouped st) k \<union>
       (if decodable (recIdx env) rec \<and> recordKey env rec = k then {bid} else {})"
proof (cases "decodable (recIdx env) rec")
  case True
  then obtain s d where sd: "field (recIdx env) rec ''start_us'' = Some s"
      "field (recIdx env) rec ''duration_us'' = Some d"
    by (auto simp: decodable_def)
  show ?thesis
  proof (cases "map_of (grouped st) (recordKey env rec)")
    case None
    then have b: "blockIds (grouped st) (recordKey env rec) = {}" by (simp add: blockIds_def)
    show ?thesis
      unfolding decodeRecord_def Let_def sd
      using True by (auto simp: None blockIds_update b)
  next
    case (Some g)
    then have b: "blockIds (grouped st) (recordKey env rec) = fst ` set (g_blocks g)"
      by (simp add: blockIds_def)
    show ?thesis
      unfolding decodeRecord_def Let_def sd
      using True by (auto simp: Some blockIds_update b dom_update)
  qed
next
  case False
  then show ?thesis by (simp add: decodeRecord_skip)
qed

lemma forEach_Cons_Inr:
  "forEach body (x # xs) s = Inr s' \<longleftrightarrow>
     (\<exists>s1. body x s = Inr s1 \<and> forEach body xs s1 = Inr s')"
  by (cases "body x s") simp_all

lemma decodeEntry_Inr:
  "decodeEntry env bid sm r st = Inr s1 \<Longrightarrow>
   \<exists>rec. r = Some rec \<and> s1 = decodeRecord env bid sm rec st"
  by (cases r) (simp_all add: decodeEntry_None decodeEntry_Some)

lemma forEach_decodeEntry_ok:
  "forEach (decodeEntry env bid sm) recs st = Inr st' \<Longrightarrow> groups_ok (grouped st) \<Longrightarrow>
   groups_ok (grouped st')"
proof (induction recs arbitrary: st)
  case Nil
  then show ?case by simp
next
  case (Cons r recs)
  from Cons.prems(1) obtain s1 where s1: "decodeEntry env bid sm r st = Inr s1"
    "forEach (decodeEntry env bid sm) recs s1 = Inr st'"
    unfolding forEach_Cons_Inr by (elim exE conjE)
  from decodeEntry_Inr [OF s1(1)] obtain rec where "s1 = decodeRecord env bid sm rec st"
    by (elim exE conjE)
  then have "groups_ok (grouped s1)" using Cons.prems(2) by (simp add: decodeRecord_ok)
  then show ?case by (rule Cons.IH [OF s1(2)])
qed

lemma forEach_decodeEntry_blockIds:
  "forEach (decodeEntry env bid sm) recs st = Inr st' \<Longrightarrow>
   blockIds (grouped st') k =
     blockIds (grouped st) k \<union>
     fst ` set (filter (\<lambda>br. decodable (recIdx env) (snd br) \<and> recordKey env (snd br) = k)
                  (concat (map (\<lambda>r. case r of None \<Rightarrow> [] | Some rec \<Rightarrow> [(bid, rec)]) recs)))"
proof (induction recs arbitrary: st)
  case Nil
  then show ?case by simp
next
  case (Cons r recs)
  from Cons.prems(1) obtain s1 where s1: "decodeEntry env bid sm r st = Inr s1"
    "forEach (decodeEntry env bid sm) recs s1 = Inr st'"
    unfolding forEach_Cons_Inr by (elim exE conjE)
  from decodeEntry_Inr [OF s1(1)] obtain rec where r: "r = Some rec"
    and e: "s1 = decodeRecord env bid sm rec st"
    by (elim exE conjE)
  have "blockIds (grouped s1) k =
      blockIds (grouped st) k \<union>
        (if decodable (recIdx env) rec \<and> recordKey env rec = k then {bid} else {})"
    unfolding e by (rule decodeRecord_blockIds)
  then show ?case unfolding Cons.IH [OF s1(2)] r by auto
qed

lemma blocksOfCategory_Cons:
  "blocksOfCategory env (b # blocks) k = blocksOfCategory env [b] k \<union> blocksOfCategory env blocks k"
  unfolding blocksOfCategory_def allRecords_Cons [of b blocks] by (simp add: image_Un)

lemma blocksOfCategory_Nil: "blocksOfCategory env [] k = {}"
  by (simp add: blocksOfCategory_def allRecords_def)

lemma decodeBlock_Inr:
  assumes "decodeBlock env b st = Inr st'"
  shows "(groups_ok (grouped st) \<longrightarrow> groups_ok (grouped st')) \<and>
         blockIds (grouped st') k = blockIds (grouped st) k \<union> blocksOfCategory env [b] k"
proof (cases b)
  case None
  then show ?thesis using assms by (simp add: decodeBlock_def)
next
  case (Some entry)
  show ?thesis
  proof (cases "be_records entry")
    case NoRecords
    then have "st' = st" using assms by (simp add: Some decodeBlock_def Let_def)
    then show ?thesis
      by (simp add: Some blocksOfCategory_def allRecords_def recordsOf_def NoRecords)
  next
    case NotIterable
    then show ?thesis using assms by (simp add: Some decodeBlock_def Let_def)
  next
    case (Records recs)
    have f: "forEach (decodeEntry env (be_block_id entry) (or_empty (be_size_map entry))) recs st
        = Inr st'"
      using assms by (simp add: Some decodeBlock_def Let_def Records)
    have "blocksOfCategory env [b] k =
        fst ` set (filter (\<lambda>br. decodable (recIdx env) (snd br) \<and> recordKey env (snd br) = k)
          (concat (map (\<lambda>r. case r of None \<Rightarrow> [] | Some rec \<Rightarrow> [(be_block_id entry, rec)])
             recs)))"
      by (simp add: Some blocksOfCategory_def allRecords_def recordsOf_def Records)
    then show ?thesis
      using forEach_decodeEntry_ok [OF f] forEach_decodeEntry_blockIds [OF f, of k]
      by simp
  qed
qed

lemma forEach_decodeBlock_ok:
  "forEach (decodeBlock env) blocks st = Inr st' \<Longrightarrow> groups_ok (grouped st) \<Longrightarrow>
   groups_ok (grouped st')"
proof (induction blocks arbitrary: st)
  case Nil
  then show ?case by simp
next
  case (Cons b blocks)
  from Cons.prems(1) obtain s1 where s1: "decodeBlock env b st = Inr s1"
    "forEach (decodeBlock env) blocks s1 = Inr st'"
    unfolding forEach_Cons_Inr by (elim exE conjE)
  have "groups_ok (grouped s1)"
    using decodeBlock_Inr [OF s1(1), of undefined] Cons.prems(2) by simp
  then show ?case by (rule Cons.IH [OF s1(2)])
qed

lemma forEach_decodeBlock_blockIds:
  "forEach (decodeBlock env) blocks st = Inr st' \<Longrightarrow>
   blockIds (grouped st') k = blockIds (grouped st) k \<union> blocksOfCategory env blocks k"
proof (induction blocks arbitrary: st)
  case Nil
  then show ?case by (simp add: blocksOfCategory_Nil)
next
  case (Cons b blocks)
  from Cons.prems(1) obtain s1 where s1: "decodeBlock env b st = Inr s1"
    "forEach (decodeBlock env) blocks s1 = Inr st'"
    unfolding forEach_Cons_Inr by (elim exE conjE)
  have "blockIds (grouped s1) k = blockIds (grouped st) k \<union> blocksOfCategory env [b] k"
    using decodeBlock_Inr [OF s1(1), of k] by simp
  then show ?case
    unfolding Cons.IH [OF s1(2)] blocksOfCategory_Cons [of env b blocks k]
    by (simp only: Un_assoc)
qed

lemma length_js_sort: "length (js_sort cmp xs) = length xs"
  using mset_js_sort [of cmp xs] by (rule mset_eq_length)

lemma length_shiftPoints: "length (shiftPoints e xs) = length xs"
  by (simp add: shiftPoints_def length_js_sort)

lemma processBlock_blockSize_length:
  "length (blockSizePointsDt (processBlock a blk)) \<le> Suc (length (blockSizePointsDt a))"
  unfolding processBlock_def Let_def
  by (simp add: fold_pushTimePoint_keeps split: list.split)

lemma foldl_processBlock_blockSize_length:
  "length (blockSizePointsDt (foldl processBlock a bs)) \<le> length (blockSizePointsDt a) + length bs"
proof (induction bs arbitrary: a)
  case Nil
  show ?case by simp
next
  case (Cons b bs)
  have "length (blockSizePointsDt (foldl processBlock (processBlock a b) bs))
      \<le> length (blockSizePointsDt (processBlock a b)) + length bs"
    by (rule Cons)
  then show ?case using processBlock_blockSize_length [of a b] by simp
qed

lemma categoryStats_counts:
  "num_blocks (categoryStats e g) = length (g_blocks g)"
  "length (block_size_points (categoryStats e g)) \<le> length (g_blocks g)"
  using foldl_processBlock_blockSize_length [of empty_acc "g_blocks g"]
  by (simp_all add: categoryStats_def Let_def length_shiftPoints empty_acc_def)

lemma blockIds_card:
  assumes "groups_ok gs" "(k, g) \<in> set gs"
  shows "length (g_blocks g) = card (blockIds gs k)"
proof -
  have d: "distinct (map fst gs)" using assms(1) by (simp add: groups_ok_def)
  then have m: "map_of gs k = Some g" using assms(2) by simp
  have "distinct (map fst (g_blocks g))" using assms(1) m by (rule groups_ok_lookup)
  then have "card (set (map fst (g_blocks g))) = length (map fst (g_blocks g))"
    by (rule distinct_card)
  then show ?thesis by (simp add: blockIds_def m)
qed

lemma computeStats_cases:
  "computeStatsFromCompressed parse fmt payload fallbackName = Inr res \<Longrightarrow>
   res = emptyStats payload fallbackName \<or>
   (\<exists>blocks t e st.
      p_blocks payload = Some blocks \<and>
      forEach (decodeBlock (makeEnv payload t)) blocks \<lparr>grouped = [], earliestSec = None\<rparr>
        = Inr st \<and>
      earliestSec st = Some e \<and>
      type_called_from_stats res = map (\<lambda>(key, grp). (key, categoryStats e grp)) (grouped st))"
proof -
  assume a: "computeStatsFromCompressed parse fmt payload fallbackName = Inr res"
  define ts0 where "ts0 = (case p_ts0 payload of
                   Some s \<Rightarrow> if s \<noteq> [] then parse s else None
                 | None \<Rightarrow> None)"
  note u = a [unfolded computeStatsFromCompressed_def Let_def ts0_def [symmetric]]
  show ?thesis
  proof (cases "p_blocks payload")
    case None
    then show ?thesis using u by simp
  next
    case blocks: (Some blocks)
    show ?thesis
    proof (cases ts0)
      case None
      then show ?thesis using u blocks by simp
    next
      case ts: (Some t)
      show ?thesis
      proof (cases "forEach (decodeBlock (makeEnv payload t)) blocks
                      \<lparr>grouped = [], earliestSec = None\<rparr>")
        case (Inl e)
        then show ?thesis using u blocks ts by simp
      next
        case st: (Inr st)
        show ?thesis
        proof (cases "earliestSec st")
          case None
          then show ?thesis using u blocks ts st by simp
        next
          case (Some e)
          then have "type_called_from_stats res =
              map (\<lambda>(key, grp). (key, categoryStats e grp)) (grouped st)"
            using u blocks ts st by auto
          then show ?thesis using blocks st Some by blast
        qed
      qed
    qed
  qed
qed

text \<open>
  Claim C9. For every category of a decoded payload, \<open>num_blocks\<close> is the number of
  distinct block ids that have at least one decoded record in that category, whether or
  not the block contributes a point to any series; so \<open>num_blocks\<close> is at least the
  number of points of the category's \<open>block_size\<close> series. (The key of a record does not
  depend on the time origin \<open>ts\<close> of the decoding environment.)
\<close>

theorem num_blocks_counts_blocks:
  assumes "computeStatsFromCompressed parse fmt payload fallbackName = Inr res"
    and "(k, cs) \<in> set (type_called_from_stats res)"
  shows "num_blocks cs =
           card (blocksOfCategory (makeEnv payload ts) (or_empty (p_blocks payload)) k) \<and>
         length (block_size_points cs) \<le> num_blocks cs"
proof -
  have ne: "res \<noteq> emptyStats payload fallbackName"
    using assms(2) by (auto simp: emptyStats_def)
  then obtain blocks t e st where blocks: "p_blocks payload = Some blocks"
    and st: "forEach (decodeBlock (makeEnv payload t)) blocks
               \<lparr>grouped = [], earliestSec = None\<rparr> = Inr st"
    and r: "type_called_from_stats res = map (\<lambda>(key, grp). (key, categoryStats e grp)) (grouped st)"
    using computeStats_cases [OF assms(1)] by auto
  have "(k, cs) \<in> set (map (\<lambda>(key, grp). (key, categoryStats e grp)) (grouped st))"
    using assms(2) unfolding r by simp
  then obtain g where g: "(k, g) \<in> set (grouped st)" "cs = categoryStats e g" by auto
  have "groups_ok (grouped \<lparr>grouped = [], earliestSec = None\<rparr>)" by (simp add: groups_ok_def)
  then have ok: "groups_ok (grouped st)" by (rule forEach_decodeBlock_ok [OF st])
  have "blockIds (grouped st) k = blocksOfCategory (makeEnv payload t) blocks k"
    unfolding forEach_decodeBlock_blockIds [OF st] by (simp add: blockIds_def)
  also have "\<dots> = blocksOfCategory (makeEnv payload ts) blocks k"
    by (simp add: blocksOfCategory_def recordKey_def makeEnv_def Let_def)
  finally have ids: "blockIds (grouped st) k =
      blocksOfCategory (makeEnv payload ts) (or_empty (p_blocks payload)) k"
    by (simp add: blocks or_empty_def)
  have "length (g_blocks g) = card (blockIds (grouped st) k)" using ok g(1) by (rule blockIds_card)
  then show ?thesis
    unfolding g(2) ids [symmetric]
    using categoryStats_counts [of e g] by simp
qed

lemma default_sizeIndex:
  "indexMap defaultSizeFields defaultSizeFields = [''original_size'' \<mapsto> 0, ''compressed_size'' \<mapsto> 1]"
  by (simp add: indexMap_def defaultSizeFields_def eval_nat_numeral)

lemma example_env:
  "makeEnv example_payload 0 =
     \<lparr>env_ts0 = 0,
      recIdx = [''node_idx'' \<mapsto> 0, ''start_us'' \<mapsto> 1, ''duration_us'' \<mapsto> 2, ''stage_idx'' \<mapsto> 3,
        ''type_idx'' \<mapsto> 4, ''called_from_idx'' \<mapsto> 5, ''compression_idx'' \<mapsto> 6,
        ''size_idx'' \<mapsto> 7],
      sizeIdx = [''original_size'' \<mapsto> 0, ''compressed_size'' \<mapsto> 1],
      stageMap = [''compress'', ''decompress''], typeMap = [''T''], calledFromMap = [''O'']\<rparr>"
  by (simp add: makeEnv_def example_payload_def recordIndex_def sizeIndex_def
      default_recordIndex default_sizeIndex or_empty_def)

lemma example_decode:
  "forEach (decodeBlock (makeEnv example_payload 0)) example_blocks
      \<lparr>grouped = [], earliestSec = None\<rparr> =
   Inr \<lparr>grouped = [(''T__O'', example_group)], earliestSec = Some 0\<rparr>"
  unfolding example_env
  by (simp add: example_blocks_def example_group_def or_empty_def decodeBlock_def
      decodeEntry_def numbers_def to_number_def lookup_by_def
      decodeRecord_def field_def js_at_def js_index_def recordKey_def or_None_def lower_to_def
      Let_def)

lemma example_stats:
  "computeStatsFromCompressed (\<lambda>s. Some 0) (\<lambda>ms. ''1970-01-01T00:00:00.000'')
        example_payload None =
   Inr \<lparr>experiment_name = ''E'', earliest_ts_global = Some ''1970-01-01T00:00:00.000'',
        type_called_from_stats = [(''T__O'', categoryStats 0 example_group)]\<rparr>"
proof -
  have b: "p_blocks example_payload = Some example_blocks"
    and t: "p_ts0 example_payload = Some ''1970-01-01T00:00:00Z''"
    and n: "resultName example_payload None = ''E''"
    by (simp_all add: example_payload_def resultName_def)
  show ?thesis
    unfolding computeStatsFromCompressed_def Let_def b t
    by (simp add: example_decode n)
qed

lemma example_block_size_points:
  "block_size_points (categoryStats 0 example_group) = [(0, 1000, Some ''b1'')]"
  by (simp add: categoryStats_def example_group_def processBlock_def js_sort_def
      pushTimePoint_def positiveSizes_def set_add_def percentile_def js_at_def shiftPoints_def
      pt_t_def pt_v_def pt_block_def empty_acc_def Let_def)

theorem num_blocks_counts_blocks_witness:
  "computeStatsFromCompressed (\<lambda>s. Some 0) (\<lambda>ms. ''1970-01-01T00:00:00.000'')
        example_payload None =
     Inr \<lparr>experiment_name = ''E'', earliest_ts_global = Some ''1970-01-01T00:00:00.000'',
          type_called_from_stats = [(''T__O'', categoryStats 0 example_group)]\<rparr> \<and>
   num_blocks (categoryStats 0 example_group) = 2 \<and>
   block_size_points (categoryStats 0 example_group) = [(0, 1000, Some ''b1'')] \<and>
   card (blocksOfCategory (makeEnv example_payload 0) (or_empty (p_blocks example_payload))
      ''T__O'') = 2"
proof -
  have m: "(''T__O'', categoryStats 0 example_group) \<in> set (type_called_from_stats
      \<lparr>experiment_name = ''E'', earliest_ts_global = Some ''1970-01-01T00:00:00.000'',
       type_called_from_stats = [(''T__O'', categoryStats 0 example_group)]\<rparr>)"
    by simp
  have n: "num_blocks (categoryStats 0 example_group) = 2"
    by (simp add: categoryStats_counts example_group_def)
  have c: "card (blocksOfCategory (makeEnv example_payload 0)
      (or_empty (p_blocks example_payload)) ''T__O'') = 2"
    using num_blocks_counts_blocks [OF example_stats m, of 0] n by simp
  show ?thesis by (intro conjI example_stats n c example_block_size_points)
qed

section \<open>Bucketing\<close>

lemma bucket_add_lookup:
  "map_of (bucket_add ops w p bs) k =
     (if k = group_key ops w p then
        Some (case map_of bs k of
                None \<Rightarrow> \<lparr>b_sum = pt_v p, b_count = 1, b_sumT = pt_t p\<rparr>
              | Some cur \<Rightarrow> \<lparr>b_sum = fl_add ops (b_sum cur) (pt_v p), b_count = b_count cur + 1,
                              b_sumT = fl_add ops (b_sumT cur) (pt_t p)\<rparr>)
      else map_of bs k)"
  by (simp add: bucket_add_def group_key_def Let_def update_conv' split: option.split)

lemma bucket_add_distinct:
  "distinct (map fst bs) \<Longrightarrow> distinct (map fst (bucket_add ops w p bs))"
  by (simp add: bucket_add_def Let_def distinct_update split: option.split)

lemma bucket_add_keys:
  "fst ` set (bucket_add ops w p bs) = insert (group_key ops w p) (fst ` set bs)"
  by (simp add: bucket_add_def group_key_def Let_def dom_update split: option.split)

lemma fold_bucket_add_distinct: "distinct (map fst (fold (bucket_add ops w) xs []))"
  by (induction xs rule: rev_induct) (simp_all add: bucket_add_distinct)

lemma fold_bucket_add_keys:
  "fst ` set (fold (bucket_add ops w) xs []) = group_key ops w ` set xs"
  by (induction xs rule: rev_induct) (auto simp: bucket_add_keys)

lemma running_sum_snoc:
  "running_sum ops (xs @ [x]) = (if xs = [] then x else fl_add ops (running_sum ops xs) x)"
  by (cases xs) (simp_all add: running_sum_def)

lemma bucket_of_snoc:
  "bucket_of ops (ps @ [p]) =
     (if ps = [] then \<lparr>b_sum = pt_v p, b_count = 1, b_sumT = pt_t p\<rparr>
      else \<lparr>b_sum = fl_add ops (b_sum (bucket_of ops ps)) (pt_v p),
             b_count = b_count (bucket_of ops ps) + 1,
             b_sumT = fl_add ops (b_sumT (bucket_of ops ps)) (pt_t p)\<rparr>)"
  by (simp add: bucket_of_def running_sum_snoc)

lemma fold_bucket_add_lookup:
  "map_of (fold (bucket_add ops w) xs []) k =
     (if filter (\<lambda>p. group_key ops w p = k) xs = [] then None
      else Some (bucket_of ops (filter (\<lambda>p. group_key ops w p = k) xs)))"
proof (induction xs rule: rev_induct)
  case Nil
  show ?case by simp
next
  case (snoc p xs)
  show ?case
  proof (cases "k = group_key ops w p")
    case True
    then show ?thesis
      using snoc by (simp add: bucket_add_lookup bucket_of_snoc)
  next
    case False
    then show ?thesis
      using snoc by (simp add: bucket_add_lookup)
  qed
qed

lemma insort_key_of_int: "insort_key real_of_int x ks = insort x ks"
  by (induction ks) simp_all

lemma sort_key_of_int: "sort_key real_of_int ks = sort ks"
  by (induction ks) (simp_all add: insort_key_of_int)

lemma js_sort_keys: "js_sort (\<lambda>a b. real_of_int a - real_of_int b) ks = sort ks"
  using js_sort_sort_key [of real_of_int ks] by (simp add: sort_key_of_int)

lemma concat_singletons:
  "(\<And>k. k \<in> set ks \<Longrightarrow> g k = [h k]) \<Longrightarrow> concat (map g ks) = map h ks"
  by (induction ks) simp_all

lemma bucket_point_bucket_of: "bucket_point ops (bucket_of ops ps) = mean_point ops ps"
  by (simp add: bucket_point_def bucket_of_def mean_point_def)

lemma emitBuckets_fold:
  "emitBuckets ops (fold (bucket_add ops w) xs []) =
     map (group_mean ops w xs) (sorted_list_of_set (group_key ops w ` set xs))"
proof -
  let ?B = "fold (bucket_add ops w) xs []"
  have d: "distinct (map fst ?B)" by (rule fold_bucket_add_distinct)
  have "sorted_list_of_set (set (map fst ?B)) = sort (remdups (map fst ?B))"
    by (rule sorted_list_of_set_sort_remdups)
  also have "\<dots> = sort (map fst ?B)" using d by (simp only: distinct_remdups_id)
  finally have keys: "sort (map fst ?B) = sorted_list_of_set (group_key ops w ` set xs)"
    using fold_bucket_add_keys [of ops w xs] by simp
  have one: "(case map_of ?B k of Some b \<Rightarrow> [bucket_point ops b] | None \<Rightarrow> []) =
      [group_mean ops w xs k]"
    if "k \<in> set (sorted_list_of_set (group_key ops w ` set xs))" for k
  proof -
    have "k \<in> group_key ops w ` set xs" using that by simp
    then have "filter (\<lambda>p. group_key ops w p = k) xs \<noteq> []"
      by (auto simp: filter_empty_conv)
    then show ?thesis
      by (simp add: fold_bucket_add_lookup group_mean_def bucket_point_bucket_of)
  qed
  show ?thesis
    unfolding emitBuckets_def Let_def js_sort_keys keys
    using one by (rule concat_singletons)
qed

lemma emitPoints_raw: "w \<le> 0 \<Longrightarrow> emitPoints ops w xs = xs"
  by (simp add: emitPoints_def)

lemma emitPoints_bucketed:
  "0 < w \<Longrightarrow>
   emitPoints ops w xs = map (group_mean ops w xs) (sorted_list_of_set (group_key ops w ` set xs))"
  by (simp add: emitPoints_def emitBuckets_fold)

lemma group_mean_block: "pt_block (group_mean ops w xs k) = None"
  by (simp add: group_mean_def mean_point_def pt_block_def)

lemma filterByBlockSize_no_ids:
  assumes "\<forall>p \<in> set out. pt_block p = None"
  shows "filterByBlockSize fs out m = out \<or> filterByBlockSize fs out m = []"
proof -
  define c where "c \<longleftrightarrow> minBlockSizeBytes fs \<le> 0 \<or>
     (case map_of m ''undefined'' of Some sz \<Rightarrow> minBlockSizeBytes fs \<le> sz | None \<Rightarrow> False)"
  have "filter (size_ok fs m) out = filter (\<lambda>p. c) out"
    using assms by (intro filter_cong) (simp_all add: size_ok_def c_def)
  then show ?thesis unfolding filterByBlockSize_size_ok by (cases c) simp_all
qed

lemma mset_kept: "mset (kept fs pts m) \<subseteq># mset pts"
proof -
  have "mset (kept fs pts m) \<subseteq># mset (windowed fs pts m)" by (simp add: kept_def)
  also have "\<dots> \<subseteq># mset (filter (size_ok fs m) pts)" by (simp add: windowed_def)
  also have "\<dots> \<subseteq># mset pts" by simp
  finally show ?thesis .
qed

lemma sorted_kept: "sorted (map pt_t (kept fs pts m))"
  by (simp add: kept_def windowed_def sorted_filter)

section \<open>The shape of the output\<close>

text \<open>
  Claim C10. Without bucketing (width at most 0) the aggregator returns exactly the
  points that survive the size filter, the time window and the edge trim: input points,
  unchanged and with their block ids, in ascending order of time. With a positive bucket
  width it returns one point per bucket that holds a surviving point, in ascending order
  of the bucket number: the mean time and the mean value of the bucket's surviving points
  (sums and quotients as the engine rounds them), without a block id; therefore a size
  filter applied to a bucketed series keeps all of it or none of it.
\<close>

theorem output_shape:
  "(w \<le> 0 \<longrightarrow>
      aggregatePoints ops fs pts w m = kept fs pts m \<and>
      mset (aggregatePoints ops fs pts w m) \<subseteq># mset pts \<and>
      sorted (map pt_t (aggregatePoints ops fs pts w m))) \<and>
   (0 < w \<longrightarrow>
      aggregatePoints ops fs pts w m =
        map (group_mean ops w (kept fs pts m))
          (sorted_list_of_set (group_key ops w ` set (kept fs pts m))) \<and>
      (\<forall>p \<in> set (aggregatePoints ops fs pts w m). pt_block p = None) \<and>
      (filterByBlockSize fs' (aggregatePoints ops fs pts w m) m' =
         aggregatePoints ops fs pts w m \<or>
       filterByBlockSize fs' (aggregatePoints ops fs pts w m) m' = []))"
proof -
  have a: "w \<le> 0 \<Longrightarrow> aggregatePoints ops fs pts w m = kept fs pts m"
    by (simp add: aggregatePoints_kept [of ops fs pts w m] emitPoints_raw)
  have b: "0 < w \<Longrightarrow> aggregatePoints ops fs pts w m =
      map (group_mean ops w (kept fs pts m))
        (sorted_list_of_set (group_key ops w ` set (kept fs pts m)))"
    by (simp add: aggregatePoints_kept [of ops fs pts w m] emitPoints_bucketed)
  have c: "\<forall>p \<in> set (aggregatePoints ops fs pts w m). pt_block p = None" if "0 < w"
    unfolding b [OF that] by (simp add: group_mean_block)
  have d: "filterByBlockSize fs' (aggregatePoints ops fs pts w m) m' =
         aggregatePoints ops fs pts w m \<or>
       filterByBlockSize fs' (aggregatePoints ops fs pts w m) m' = []" if "0 < w"
    using c [OF that] by (rule filterByBlockSize_no_ids)
  have raw: "w \<le> 0 \<longrightarrow>
      aggregatePoints ops fs pts w m = kept fs pts m \<and>
      mset (aggregatePoints ops fs pts w m) \<subseteq># mset pts \<and>
      sorted (map pt_t (aggregatePoints ops fs pts w m))"
    using a mset_kept [of fs pts m] sorted_kept [of fs pts m] by simp
  have bucketed: "0 < w \<longrightarrow>
      aggregatePoints ops fs pts w m =
        map (group_mean ops w (kept fs pts m))
          (sorted_list_of_set (group_key ops w ` set (kept fs pts m))) \<and>
      (\<forall>p \<in> set (aggregatePoints ops fs pts w m). pt_block p = None) \<and>
      (filterByBlockSize fs' (aggregatePoints ops fs pts w m) m' =
         aggregatePoints ops fs pts w m \<or>
       filterByBlockSize fs' (aggregatePoints ops fs pts w m) m' = [])"
    using b c d by (intro impI conjI)
  show ?thesis using raw bucketed by (rule conjI)
qed

lemma example_kept:
  "kept \<lparr>trimEdges = False, minBlockSizeBytes = 100, rangeMinT = 0, rangeMaxT = 100\<rparr>
      [(12, 4, Some ''b''), (3, 2, Some ''a''), (14, 8, Some ''c''), (200, 1, Some ''c'')]
      [(''a'', 50), (''b'', 200), (''c'', 300)]
     = [(12, 4, Some ''b''), (14, 8, Some ''c'')]"
  by (simp add: kept_def windowed_def size_ok_def in_window_def trim_lo_def trim_hi_def
      pt_t_def pt_block_def)

theorem output_shape_witness:
  "aggregatePoints exact_ops
      \<lparr>trimEdges = False, minBlockSizeBytes = 100, rangeMinT = 0, rangeMaxT = 100\<rparr>
      [(12, 4, Some ''b''), (3, 2, Some ''a''), (14, 8, Some ''c''), (200, 1, Some ''c'')] 0
      [(''a'', 50), (''b'', 200), (''c'', 300)]
     = [(12, 4, Some ''b''), (14, 8, Some ''c'')] \<and>
   aggregatePoints exact_ops
      \<lparr>trimEdges = False, minBlockSizeBytes = 100, rangeMinT = 0, rangeMaxT = 100\<rparr>
      [(12, 4, Some ''b''), (3, 2, Some ''a''), (14, 8, Some ''c''), (200, 1, Some ''c'')] 10
      [(''a'', 50), (''b'', 200), (''c'', 300)]
     = [(13, 6, None)]"
proof -
  let ?fs = "\<lparr>trimEdges = False, minBlockSizeBytes = 100, rangeMinT = 0, rangeMaxT = 100\<rparr>"
  let ?pts = "[(12, 4, Some ''b''), (3, 2, Some ''a''), (14, 8, Some ''c''),
               (200, 1, Some ''c'')] :: point list"
  let ?m = "[(''a'', 50), (''b'', 200), (''c'', 300)] :: (block_id \<times> real) list"
  have z: "(0::real) \<le> 0" and t: "(0::real) < 10" by simp_all
  have "aggregatePoints exact_ops ?fs ?pts 0 ?m = kept ?fs ?pts ?m"
    using output_shape [of 0 exact_ops ?fs ?pts ?m ?fs ?m, THEN conjunct1, THEN mp, OF z]
    by (rule conjunct1)
  then have raw: "aggregatePoints exact_ops ?fs ?pts 0 ?m = [(12, 4, Some ''b''), (14, 8, Some ''c'')]"
    by (simp only: example_kept)
  have "aggregatePoints exact_ops ?fs ?pts 10 ?m =
      map (group_mean exact_ops 10 (kept ?fs ?pts ?m))
        (sorted_list_of_set (group_key exact_ops 10 ` set (kept ?fs ?pts ?m)))"
    using output_shape [of 10 exact_ops ?fs ?pts ?m ?fs ?m, THEN conjunct2, THEN mp, OF t]
    by (rule conjunct1)
  also have "\<dots> = map (group_mean exact_ops 10 [(12, 4, Some ''b''), (14, 8, Some ''c'')])
        (sorted_list_of_set (group_key exact_ops 10 ` set [(12, 4, Some ''b''), (14, 8, Some ''c'')]))"
    by (simp only: example_kept)
  also have "\<dots> = [(13, 6, None)]"
    by (simp add: group_key_def group_mean_def mean_point_def running_sum_def exact_ops_def
        pt_t_def pt_v_def)
  finally show ?thesis using raw by (intro conjI)
qed

section \<open>Re-applying the aggregation\<close>












section \<open>Bucket means in exact arithmetic\<close>

text \<open>
  With exact addition and division the mean time of a bucket lies in the bucket, so the
  points of a bucketed output fall into strictly ascending buckets. Rounded arithmetic
  gives no such bound.
\<close>

lemma running_sum_exact: "running_sum exact_ops xs = sum_list xs"
  by (cases xs) (simp_all add: running_sum_def exact_ops_def foldl_plus_sum_list)

lemma exact_div_one: "\<forall>x. fl_div exact_ops x 1 = x"
  by (simp add: exact_ops_def)

lemma sum_list_lower:
  "(\<And>x. x \<in> set xs \<Longrightarrow> a \<le> f x) \<Longrightarrow> a * real (length xs) \<le> sum_list (map f xs)"
proof (induction xs)
  case Nil
  show ?case by simp
next
  case (Cons x xs)
  have "a \<le> f x" by (rule Cons.prems) simp
  moreover have "a * real (length xs) \<le> sum_list (map f xs)"
    by (rule Cons.IH) (simp add: Cons.prems)
  ultimately show ?case by (simp add: algebra_simps)
qed

lemma sum_list_upper_strict:
  "xs \<noteq> [] \<Longrightarrow> (\<And>x. x \<in> set xs \<Longrightarrow> f x < b) \<Longrightarrow> sum_list (map f xs) < b * real (length xs)"
proof (induction xs)
  case Nil
  then show ?case by simp
next
  case (Cons x xs)
  have x: "f x < b" by (rule Cons.prems) simp
  show ?case
  proof (cases "xs = []")
    case True
    then show ?thesis using x by simp
  next
    case False
    then have "sum_list (map f xs) < b * real (length xs)"
      by (rule Cons.IH) (simp add: Cons.prems)
    then show ?thesis using x by (simp add: algebra_simps)
  qed
qed

lemma exact_key_bounds:
  assumes "0 < w" "group_key exact_ops w p = k"
  shows "real_of_int k * w \<le> pt_t p" "pt_t p < (real_of_int k + 1) * w"
proof -
  have "real_of_int k \<le> pt_t p / w" "pt_t p / w < real_of_int k + 1"
    using assms(2) unfolding group_key_def exact_ops_def by simp_all linarith+
  then show "real_of_int k * w \<le> pt_t p" "pt_t p < (real_of_int k + 1) * w"
    using assms(1) by (simp_all add: pos_le_divide_eq pos_divide_less_eq)
qed

lemma exact_key_unique:
  assumes "0 < w" "real_of_int k * w \<le> pt_t p" "pt_t p < (real_of_int k + 1) * w"
  shows "group_key exact_ops w p = k"
proof -
  have "real_of_int k \<le> pt_t p / w" "pt_t p / w < real_of_int k + 1"
    using assms by (simp_all add: pos_le_divide_eq pos_divide_less_eq)
  then have "\<lfloor>pt_t p / w\<rfloor> = k" by (rule floor_unique)
  then show ?thesis by (simp add: group_key_def exact_ops_def)
qed

lemma pt_t_exact_mean:
  "pt_t (group_mean exact_ops w xs k) =
     sum_list (map pt_t (filter (\<lambda>p. group_key exact_ops w p = k) xs)) /
       real (length (filter (\<lambda>p. group_key exact_ops w p = k) xs))"
  unfolding group_mean_def mean_point_def running_sum_exact
  by (simp add: pt_t_def exact_ops_def)

lemma exact_mean_key:
  assumes w: "0 < w" and k: "k \<in> group_key exact_ops w ` set xs"
  shows "group_key exact_ops w (group_mean exact_ops w xs k) = k"
proof -
  let ?ps = "filter (\<lambda>p. group_key exact_ops w p = k) xs"
  have ne: "?ps \<noteq> []" using k by (auto simp: filter_empty_conv)
  then have n: "0 < real (length ?ps)" by simp
  have lo: "real_of_int k * w * real (length ?ps) \<le> sum_list (map pt_t ?ps)"
    by (rule sum_list_lower) (simp add: exact_key_bounds(1) [OF w])
  have hi: "sum_list (map pt_t ?ps) < (real_of_int k + 1) * w * real (length ?ps)"
    using ne by (rule sum_list_upper_strict) (simp add: exact_key_bounds(2) [OF w])
  have a: "real_of_int k * w \<le> pt_t (group_mean exact_ops w xs k)"
    unfolding pt_t_exact_mean using lo n by (simp only: pos_le_divide_eq)
  have b: "pt_t (group_mean exact_ops w xs k) < (real_of_int k + 1) * w"
    unfolding pt_t_exact_mean using hi n by (simp only: pos_divide_less_eq)
  show ?thesis using w a b by (rule exact_key_unique)
qed

lemma exact_means_ascending:
  assumes w: "0 < w"
  shows "sorted_wrt (<) (map (group_key exact_ops w) (aggregatePoints exact_ops fs pts w m))"
proof -
  let ?xs = "kept fs pts m"
  let ?K = "sorted_list_of_set (group_key exact_ops w ` set ?xs)"
  have "aggregatePoints exact_ops fs pts w m = map (group_mean exact_ops w ?xs) ?K"
    by (simp add: aggregatePoints_kept [of exact_ops fs pts w m] emitPoints_bucketed [OF w])
  then have "map (group_key exact_ops w) (aggregatePoints exact_ops fs pts w m) =
      map (\<lambda>k. group_key exact_ops w (group_mean exact_ops w ?xs k)) ?K"
    by (simp add: comp_def)
  also have "\<dots> = map (\<lambda>k. k) ?K"
    using w by (intro map_cong) (simp_all add: exact_mean_key)
  finally have "map (group_key exact_ops w) (aggregatePoints exact_ops fs pts w m) = ?K" by simp
  then show ?thesis by (simp only: sorted_list_of_set.strict_sorted_key_list_of_set)
qed

end
